theory Spec2Isabelle
  imports Complex_Main "HOL-Library.Word" "HOL-Library.Sublist"
begin

section \<open>JavaScript strings\<close>

text \<open>
  A JavaScript string is a sequence of 16-bit code units. Document text, regular
  expression captures and the JSON text returned by the extraction functions are modelled
  as lists of code units; \<open>utf16\<close> embeds an ASCII literal.
\<close>

type_synonym code_unit = "16 word"
type_synonym jsstring = "code_unit list"

definition utf16 :: "string \<Rightarrow> jsstring" where
  "utf16 s = map (\<lambda>c. of_nat (of_char c)) s"

definition LF :: code_unit where "LF = 0x0A"
definition CR :: code_unit where "CR = 0x0D"
definition BACKTICK :: code_unit where "BACKTICK = 0x60"

text \<open>
  The class \<open>\s\<close> of a JavaScript regular expression, which is also the set of code
  units that \<open>String.prototype.trim\<close> strips: WhiteSpace and LineTerminator of
  ECMA-262.
\<close>

definition isWhiteSpace :: "code_unit \<Rightarrow> bool" where
  "isWhiteSpace c \<longleftrightarrow>
     c = 0x09 \<or> c = 0x0A \<or> c = 0x0B \<or> c = 0x0C \<or> c = 0x0D \<or> c = 0x20 \<or> c = 0xA0 \<or>
     c = 0x1680 \<or> (0x2000 \<le> c \<and> c \<le> 0x200A) \<or> c = 0x2028 \<or> c = 0x2029 \<or>
     c = 0x202F \<or> c = 0x205F \<or> c = 0x3000 \<or> c = 0xFEFF"

text \<open>\<open>String.prototype.trim\<close>.\<close>

definition trim :: "jsstring \<Rightarrow> jsstring" where
  "trim s = rev (dropWhile isWhiteSpace (rev (dropWhile isWhiteSpace s)))"

section \<open>The fence regular expression\<close>

text \<open>
  Both extraction functions use the literal

  \<^verbatim>\<open>/```mermaid[^\S\r\n]*(?:\r?\n)([\s\S]*?)(?:\r?\n)?```/g\<close>

  A backtracking matcher is modelled by the list of its successes: a matcher maps the
  input that is left to the inputs left after each way of matching, in the order in which
  backtracking tries them. The match the engine reports is the first success.
\<close>

type_synonym matcher = "jsstring \<Rightarrow> jsstring list"

text \<open>A literal.\<close>

definition lit :: "jsstring \<Rightarrow> matcher" where
  "lit p s = (if take (length p) s = p then [drop (length p) s] else [])"

text \<open>Concatenation: every success of the first, continued by the second.\<close>

definition seq :: "matcher \<Rightarrow> matcher \<Rightarrow> matcher" where
  "seq m1 m2 s = concat (map m2 (m1 s))"

text \<open>Greedy \<open>X?\<close>: first with \<open>X\<close>, then without.\<close>

definition opt :: "matcher \<Rightarrow> matcher" where
  "opt m s = m s @ [s]"

text \<open>Greedy \<open>[c]*\<close> over a character class: longest first.\<close>

fun star :: "(code_unit \<Rightarrow> bool) \<Rightarrow> matcher" where
  "star P [] = [[]]"
| "star P (c # cs) = (if P c then star P cs @ [c # cs] else [c # cs])"

text \<open>Lazy \<open>[c]*?\<close> over a character class: shortest first.\<close>

fun lazy_star :: "(code_unit \<Rightarrow> bool) \<Rightarrow> matcher" where
  "lazy_star P [] = [[]]"
| "lazy_star P (c # cs) = (c # cs) # (if P c then lazy_star P cs else [])"

text \<open>\<open>[^\S\r\n]\<close>: white space other than carriage return and line feed.\<close>

definition hspace :: "code_unit \<Rightarrow> bool" where
  "hspace c \<longleftrightarrow> \<not> (\<not> isWhiteSpace c \<or> c = CR \<or> c = LF)"

text \<open>\<open>[\s\S]\<close>: any code unit.\<close>

definition any_unit :: "code_unit \<Rightarrow> bool" where
  "any_unit c \<longleftrightarrow> isWhiteSpace c \<or> \<not> isWhiteSpace c"

definition FENCE :: jsstring where
  "FENCE = [BACKTICK, BACKTICK, BACKTICK]"

definition FENCE_MERMAID :: jsstring where
  "FENCE_MERMAID = FENCE @ utf16 ''mermaid''"

text \<open>\<open>\r?\n\<close>\<close>

definition newline :: matcher where
  "newline = seq (opt (lit [CR])) (lit [LF])"

text \<open>\<open>```mermaid[^\S\r\n]*(?:\r?\n)\<close>, the part before the capture group.\<close>

definition opener :: matcher where
  "opener = seq (lit FENCE_MERMAID) (seq (star hspace) newline)"

text \<open>\<open>(?:\r?\n)?```\<close>, the part after the capture group.\<close>

definition closer :: matcher where
  "closer = seq (opt newline) (lit FENCE)"

text \<open>
  A match at the start of the input: \<open>matched\<close> is \<open>match[0]\<close>, \<open>group1\<close> is
  \<open>match[1]\<close>, the text consumed by \<open>([\s\S]*?)\<close>.
\<close>

record regex_match =
  matched :: jsstring
  group1 :: jsstring

definition match_here :: "jsstring \<Rightarrow> regex_match option" where
  "match_here s =
     (case [(s1, s2, s3). s1 \<leftarrow> opener s, s2 \<leftarrow> lazy_star any_unit s1, s3 \<leftarrow> closer s2] of
        [] \<Rightarrow> None
      | (s1, s2, s3) # _ \<Rightarrow>
          Some \<lparr>matched = take (length s - length s3) s,
                group1 = take (length s1 - length s2) s1\<rparr>)"


text \<open>
  \<open>RegExp.prototype.exec\<close> on a global regular expression whose \<open>lastIndex\<close> is
  \<open>i\<close>: the match is tried at \<open>i\<close>, then at \<open>i + 1\<close>, and so on up to the end of
  the text. The result is the index of the match (\<open>match.index\<close>) and the match.
\<close>

function regex_exec :: "jsstring \<Rightarrow> nat \<Rightarrow> (nat \<times> regex_match) option" where
  "regex_exec tx i =
     (if length tx < i then None
      else case match_here (drop i tx) of
             Some m \<Rightarrow> Some (i, m)
           | None \<Rightarrow> regex_exec tx (Suc i))"
  by pat_completeness auto
termination
  by (relation "measure (\<lambda>(tx, i). Suc (length tx) - i)") auto

declare regex_exec.simps [simp del]

text \<open>
  Every success of the fence expression consumes the opening literal, so a match is never
  empty and \<open>lastIndex\<close> moves forward after each one.
\<close>


lemma lit_shorter: "r \<in> set (lit p s) \<Longrightarrow> length r + length p = length s"
proof -
  assume "r \<in> set (lit p s)"
  then have "take (length p) s = p" and "r = drop (length p) s"
    by (auto simp: lit_def split: if_splits)
  then have "length p \<le> length s"
    by (metis length_take min.cobounded1)
  with \<open>r = drop (length p) s\<close> show ?thesis by simp
qed

lemma star_suffix: "r \<in> set (star P s) \<Longrightarrow> length r \<le> length s"
  by (induction s) (auto split: if_splits)

lemma lazy_star_suffix: "r \<in> set (lazy_star P s) \<Longrightarrow> length r \<le> length s"
  by (induction s) (auto split: if_splits)




lemma seq_mem: "r \<in> set (seq m1 m2 s) \<longleftrightarrow> (\<exists>t \<in> set (m1 s). r \<in> set (m2 t))"
  by (auto simp: seq_def)

lemma opt_mem: "r \<in> set (opt m s) \<longleftrightarrow> r \<in> set (m s) \<or> r = s"
  by (auto simp: opt_def)

lemma newline_shorter: "r \<in> set (newline s) \<Longrightarrow> length r < length s"
proof -
  assume "r \<in> set (newline s)"
  then have "\<exists>t \<in> set (opt (lit [CR]) s). r \<in> set (lit [LF] t)"
    by (simp only: newline_def seq_mem)
  then obtain t where t: "t \<in> set (lit [CR] s) \<or> t = s" and r: "r \<in> set (lit [LF] t)"
    by (auto simp only: opt_mem)
  from t have "length t \<le> length s" using lit_shorter [of t "[CR]" s] by auto
  moreover from r have "length r < length t" using lit_shorter [of r "[LF]" t] by auto
  ultimately show ?thesis by simp
qed

lemma opener_shorter: "r \<in> set (opener s) \<Longrightarrow> length r < length s"
proof -
  assume "r \<in> set (opener s)"
  then have "\<exists>t \<in> set (lit FENCE_MERMAID s). r \<in> set (seq (star hspace) newline t)"
    by (simp only: opener_def seq_mem)
  then obtain t where t: "t \<in> set (lit FENCE_MERMAID s)"
    and "r \<in> set (seq (star hspace) newline t)"
    by blast
  then have "\<exists>u \<in> set (star hspace t). r \<in> set (newline u)"
    by (simp only: seq_mem)
  then obtain u where "u \<in> set (star hspace t)" "r \<in> set (newline u)"
    by blast
  with t have "length t \<le> length s" "length u \<le> length t" "length r < length u"
    using lit_shorter [of t FENCE_MERMAID s] star_suffix [of u hspace t] newline_shorter [of r u]
    by simp_all
  then show ?thesis by simp
qed

lemma closer_shorter: "r \<in> set (closer s) \<Longrightarrow> length r < length s"
proof -
  assume "r \<in> set (closer s)"
  then have "\<exists>t \<in> set (opt newline s). r \<in> set (lit FENCE t)"
    by (simp only: closer_def seq_mem)
  then obtain t where t: "t \<in> set (newline s) \<or> t = s" and r: "r \<in> set (lit FENCE t)"
    by (auto simp only: opt_mem)
  from t have "length t \<le> length s" using newline_shorter [of t s] by auto
  moreover from r have "length r < length t"
    using lit_shorter [of r FENCE t] by (simp add: FENCE_def)
  ultimately show ?thesis by simp
qed

lemma match_here_nonempty:
  assumes "match_here s = Some m"
  shows "matched m \<noteq> []" and "length (matched m) \<le> length s"
proof -
  from assms obtain s1 s2 s3 rest where
    l: "[(s1, s2, s3). s1 \<leftarrow> opener s, s2 \<leftarrow> lazy_star any_unit s1, s3 \<leftarrow> closer s2]
          = (s1, s2, s3) # rest"
    and m: "m = \<lparr>matched = take (length s - length s3) s,
                  group1 = take (length s1 - length s2) s1\<rparr>"
    by (auto simp: match_here_def split: list.splits)
  have "(s1, s2, s3) \<in> set [(s1, s2, s3). s1 \<leftarrow> opener s, s2 \<leftarrow> lazy_star any_unit s1, s3 \<leftarrow> closer s2]"
    unfolding l by simp
  then have "s1 \<in> set (opener s)" "s2 \<in> set (lazy_star any_unit s1)" "s3 \<in> set (closer s2)"
    by auto
  then have "length s1 < length s" "length s2 \<le> length s1" "length s3 < length s2"
    using opener_shorter [of s1 s] lazy_star_suffix [of s2 any_unit s1] closer_shorter [of s3 s2]
    by simp_all
  then have "length s3 < length s" by simp
  then show "matched m \<noteq> []" and "length (matched m) \<le> length s"
    by (auto simp: m)
qed

lemma regex_exec_range:
  "regex_exec tx i = Some (j, m) \<Longrightarrow> i \<le> j \<and> j + length (matched m) \<le> length tx \<and> matched m \<noteq> []"
proof (induction tx i rule: regex_exec.induct)
  case (1 tx i)
  show ?case
  proof (cases "match_here (drop i tx)")
    case None
    with "1.prems" have "\<not> length tx < i" and "regex_exec tx (Suc i) = Some (j, m)"
      by (auto simp: regex_exec.simps [of tx i] split: if_splits)
    with "1.IH" None show ?thesis by fastforce
  next
    case (Some m')
    with "1.prems" have "\<not> length tx < i" and "j = i" and "m' = m"
      by (auto simp: regex_exec.simps [of tx i] split: if_splits)
    with match_here_nonempty [OF Some] show ?thesis by auto
  qed
qed

text \<open>
  The matches that \<open>text.matchAll(mermaidRegex)\<close> yields, and that the loop
  \<open>while ((match = mermaidRegex.exec(text)) !== null)\<close> visits: after a match at
  \<open>j\<close>, \<open>lastIndex\<close> is \<open>j + match[0].length\<close>.
\<close>

function matchAll :: "jsstring \<Rightarrow> nat \<Rightarrow> (nat \<times> regex_match) list" where
  "matchAll tx i =
     (case regex_exec tx i of
        None \<Rightarrow> []
      | Some (j, m) \<Rightarrow> (j, m) # matchAll tx (j + length (matched m)))"
  by pat_completeness auto
termination
proof (relation "measure (\<lambda>(tx, i). Suc (length tx) - i)")
  show "wf (measure (\<lambda>(tx, i). Suc (length tx) - i))" by simp
next
  fix tx :: jsstring and i :: nat and x2 and j :: nat and m :: regex_match
  assume "regex_exec tx i = Some x2" and "(j, m) = x2"
  then have "regex_exec tx i = Some (j, m)" by simp
  from regex_exec_range [OF this]
  have "i < j + length (matched m)" and "j + length (matched m) \<le> length tx"
    by (cases "matched m"; simp)+
  then show "((tx, j + length (matched m)), tx, i) \<in> measure (\<lambda>(tx, i). Suc (length tx) - i)"
    by simp
qed

declare matchAll.simps [simp del]



section \<open>JSON text of a string array\<close>

text \<open>
  \<open>JSON.stringify\<close> applied to an array of strings, as ECMA-262 defines it
  (QuoteJSONString): the short escapes, \<open>\u00xx\<close> for the other control characters and
  \<open>\udxxx\<close> for a surrogate without its partner, every other code unit as it is; the
  elements are separated by commas and enclosed in brackets.
\<close>

definition hex_digit :: "nat \<Rightarrow> code_unit" where
  "hex_digit n = (if n < 10 then 0x30 + of_nat n else 0x61 + of_nat (n - 10))"

definition unicode_escape :: "code_unit \<Rightarrow> jsstring" where
  "unicode_escape c =
     [0x5C, 0x75,
      hex_digit (unat c div 4096 mod 16), hex_digit (unat c div 256 mod 16),
      hex_digit (unat c div 16 mod 16), hex_digit (unat c mod 16)]"

definition lead_surrogate :: "code_unit \<Rightarrow> bool" where
  "lead_surrogate c \<longleftrightarrow> 0xD800 \<le> c \<and> c \<le> 0xDBFF"

definition trail_surrogate :: "code_unit \<Rightarrow> bool" where
  "trail_surrogate c \<longleftrightarrow> 0xDC00 \<le> c \<and> c \<le> 0xDFFF"

fun quote_units :: "jsstring \<Rightarrow> jsstring" where
  "quote_units [] = []"
| "quote_units (c # cs) =
     (if c = 0x08 then [0x5C, 0x62] @ quote_units cs
      else if c = 0x09 then [0x5C, 0x74] @ quote_units cs
      else if c = 0x0A then [0x5C, 0x6E] @ quote_units cs
      else if c = 0x0C then [0x5C, 0x66] @ quote_units cs
      else if c = 0x0D then [0x5C, 0x72] @ quote_units cs
      else if c = 0x22 then [0x5C, 0x22] @ quote_units cs
      else if c = 0x5C then [0x5C, 0x5C] @ quote_units cs
      else if c < 0x20 then unicode_escape c @ quote_units cs
      else if lead_surrogate c then
        (case cs of
           [] \<Rightarrow> unicode_escape c
         | d # ds \<Rightarrow>
             if trail_surrogate d then c # d # quote_units ds
             else unicode_escape c @ quote_units cs)
      else if trail_surrogate c then unicode_escape c @ quote_units cs
      else c # quote_units cs)"

definition QuoteJSONString :: "jsstring \<Rightarrow> jsstring" where
  "QuoteJSONString s = [0x22] @ quote_units s @ [0x22]"

fun join_comma :: "jsstring list \<Rightarrow> jsstring" where
  "join_comma [] = []"
| "join_comma [x] = x"
| "join_comma (x # y # ys) = x @ [0x2C] @ join_comma (y # ys)"

definition JSON_stringify :: "jsstring list \<Rightarrow> jsstring" where
  "JSON_stringify xs = [0x5B] @ join_comma (map QuoteJSONString xs) @ [0x5D]"

section \<open>Documents\<close>

text \<open>
  A text document of the host editor. The editor keeps a document as lines joined by the
  document's line ending, \<open>\n\<close> or \<open>\r\n\<close>; \<open>positionAt(offset).line\<close> is the number
  of line endings completed before the offset, that is the number of line feeds among
  the first \<open>offset\<close> code units.
\<close>

record TextDocument =
  uri :: string
  languageId :: string
  getText :: jsstring

definition positionAt_line :: "TextDocument \<Rightarrow> nat \<Rightarrow> int" where
  "positionAt_line document offset = int (length (filter (\<lambda>c. c = LF) (take offset (getText document))))"

section \<open>The preview panel\<close>

datatype PreviewAppearance = matchVSCode | light | dark

datatype PreviewMode = mode_all | mode_single

datatype ColorThemeKind = Light | Dark | HighContrast | HighContrastLight

text \<open>The settings under \<open>mermaidPreview\<close>; a setting that has no value is \<open>None\<close>.\<close>

record Config =
  cfg_useVSCodeTheme :: "bool option"
  cfg_theme :: "string option"
  cfg_previewAppearance :: "PreviewAppearance option"
  cfg_refreshDelay :: "int option"

text \<open>\<open>config.get(key, defaultValue)\<close>\<close>

definition config_get :: "'a option \<Rightarrow> 'a \<Rightarrow> 'a" where
  "config_get v d = (case v of None \<Rightarrow> d | Some x \<Rightarrow> x)"

text \<open>
  The calls to the logger, by level, with the category (for \<open>logDebug\<close>) and the
  message; the data attached to a call is not part of the model.
\<close>

datatype log_entry =
  logDebug string string
| logInfo string
| logError string

text \<open>
  The two pages the panel shows. The templates are long constant HTML texts; a page is
  represented by the template and the values inserted into it.
\<close>

datatype Html =
  NoHtml
| ErrorHtml string
| DiagramHtml jsstring string PreviewAppearance

datatype setting = SetUseVSCodeTheme bool | SetTheme string | SetPreviewAppearance PreviewAppearance

text \<open>
  The state of one panel together with the part of the host it acts on: the fields of
  \<open>MermaidPreviewPanel\<close>, the page of its webview, the timers that are pending (handle
  and delay), the settings, the host's colour theme, the logger's output and the
  settings updates the panel has requested.
\<close>

record world =
  mode :: PreviewMode
  singleLine :: "int option"
  currentDocument :: "TextDocument option"
  updateTimeout :: "nat option"
  html :: Html
  timers :: "(nat \<times> int) list"
  nextHandle :: nat
  config :: Config
  activeColorTheme :: ColorThemeKind
  logger :: "log_entry list"
  configUpdates :: "setting list"

text \<open>
  Modelled from the spec: the class \<open>Logger\<close> of \<open>./util/logger\<close> is missing from the
  sources, and the specification does not describe it. A call of one of its methods is
  taken to add its entry to the output of the logger and to do nothing else.
\<close>

definition log :: "log_entry \<Rightarrow> world \<Rightarrow> world" where
  "log e w = w\<lparr>logger := logger w @ [e]\<rparr>"

definition extractMermaidCode :: "TextDocument \<Rightarrow> world \<Rightarrow> jsstring option \<times> world" where
  "extractMermaidCode document w =
     (let tx = getText document;
          w1 = log (logDebug ''MermaidDetection'' ''Document snapshot'') w;
          matches = matchAll tx 0;
          w2 = log (logDebug ''MermaidDetection'' ''Number of matches found'') w1
      in if length matches = 0 then
           let w3 = log (logDebug ''MermaidDetection'' ''Fallback flags'') w2;
               w4 = log (logDebug ''MermaidDetection'' ''Simple pattern matches'') w3
           in (None, w4)
         else
           let diagrams = filter (\<lambda>code. length code > 0) (map (\<lambda>(j, m). trim (group1 m)) matches);
               w3 = log (logDebug ''MermaidDetection'' ''Valid diagrams detected'') w2
           in if length diagrams = 0 then (None, w3)
              else (Some (JSON_stringify diagrams), w3))"

text \<open>
  The loop of \<open>_extractMermaidCodeAtLine\<close>; \<open>i\<close> is the \<open>lastIndex\<close> of the regular
  expression when \<open>exec\<close> is called.
\<close>

function extractAtLine_loop :: "TextDocument \<Rightarrow> int \<Rightarrow> nat \<Rightarrow> jsstring option" where
  "extractAtLine_loop document lineNumber i =
     (case regex_exec (getText document) i of
        None \<Rightarrow> None
      | Some (j, m) \<Rightarrow>
          let startPos_line = positionAt_line document j;
              endPos_line = positionAt_line document (j + length (matched m))
          in if lineNumber \<ge> startPos_line \<and> lineNumber \<le> endPos_line
                \<and> length (trim (group1 m)) > 0
             then Some (JSON_stringify [trim (group1 m)])
             else extractAtLine_loop document lineNumber (j + length (matched m)))"
  by pat_completeness auto
termination
proof (relation "measure (\<lambda>(document, lineNumber, i). Suc (length (getText document)) - i)")
  show "wf (measure (\<lambda>(document, lineNumber, i). Suc (length (getText document)) - i))"
    by simp
next
  fix document :: TextDocument and lineNumber :: int and i :: nat and x2 and j :: nat
    and m :: regex_match and a b
  assume "regex_exec (getText document) i = Some x2" and "(j, m) = x2"
  then have "regex_exec (getText document) i = Some (j, m)" by simp
  from regex_exec_range [OF this]
  have "i < j + length (matched m)" and "j + length (matched m) \<le> length (getText document)"
    by (cases "matched m"; simp)+
  then show "((document, lineNumber, j + length (matched m)), document, lineNumber, i)
               \<in> measure (\<lambda>(document, lineNumber, i). Suc (length (getText document)) - i)"
    by simp
qed

declare extractAtLine_loop.simps [simp del]

definition extractMermaidCodeAtLine :: "TextDocument \<Rightarrow> int \<Rightarrow> jsstring option" where
  "extractMermaidCodeAtLine document lineNumber = extractAtLine_loop document lineNumber 0"


text \<open>
  \<open>_resolveTheme\<close>. An override that is \<open>undefined\<close> is \<open>None\<close>; the tests
  \<open>overrideTheme || configuredTheme\<close> and \<open>!overrideTheme\<close> take the empty string
  as absent too.
\<close>

definition resolveTheme :: "string option \<Rightarrow> world \<Rightarrow> string \<times> PreviewAppearance" where
  "resolveTheme overrideTheme w =
     (let useVSCodeTheme = config_get (cfg_useVSCodeTheme (config w)) False;
          configuredTheme = config_get (cfg_theme (config w)) ''default'';
          appearance = config_get (cfg_previewAppearance (config w)) matchVSCode;
          theme = (case overrideTheme of
                     None \<Rightarrow> configuredTheme
                   | Some t \<Rightarrow> if t \<noteq> [] then t else configuredTheme);
          theme = (if useVSCodeTheme \<and> (overrideTheme = None \<or> overrideTheme = Some []) then
                     (if appearance = light then ''default''
                      else if appearance = dark then ''dark''
                      else (if activeColorTheme w = Dark then ''dark'' else ''default''))
                   else theme)
      in (theme, appearance))"

text \<open>
  The theme as \<open>_update\<close> of the earlier \<open>previewPanel.ts\<close> computes it, where the
  \<open>previewAppearance\<close> setting does not exist yet.
\<close>

definition update_theme :: "string option \<Rightarrow> world \<Rightarrow> string" where
  "update_theme overrideTheme w =
     (let useVSCodeTheme = config_get (cfg_useVSCodeTheme (config w)) False;
          configuredTheme = config_get (cfg_theme (config w)) ''default'';
          theme = (case overrideTheme of
                     None \<Rightarrow> configuredTheme
                   | Some t \<Rightarrow> if t \<noteq> [] then t else configuredTheme)
      in if useVSCodeTheme \<and> (overrideTheme = None \<or> overrideTheme = Some []) then
           (if activeColorTheme w = Dark then ''dark'' else ''default'')
         else theme)"

definition getErrorHtml :: "string \<Rightarrow> Html" where
  "getErrorHtml message = ErrorHtml message"

definition getHtmlForWebview :: "jsstring \<Rightarrow> string \<Rightarrow> PreviewAppearance \<Rightarrow> Html" where
  "getHtmlForWebview mermaidCode theme appearance = DiagramHtml mermaidCode theme appearance"

text \<open>
  \<open>if (!mermaidCode)\<close> holds for \<open>null\<close> and for the empty string.
\<close>

definition renderAll :: "string option \<Rightarrow> world \<Rightarrow> world" where
  "renderAll overrideTheme w =
     (case currentDocument w of
        None \<Rightarrow> w\<lparr>html := getErrorHtml ''No document to preview''\<rparr>
      | Some document \<Rightarrow>
          (case extractMermaidCode document w of
             (None, w1) \<Rightarrow>
               w1\<lparr>html := getErrorHtml
                 ''No Mermaid diagram found. Wrap your diagram in ```mermaid code blocks.''\<rparr>
           | (Some mermaidCode, w1) \<Rightarrow>
               if mermaidCode = [] then
                 w1\<lparr>html := getErrorHtml
                   ''No Mermaid diagram found. Wrap your diagram in ```mermaid code blocks.''\<rparr>
               else
                 (case resolveTheme overrideTheme w1 of
                    (theme, appearance) \<Rightarrow>
                      w1\<lparr>html := getHtmlForWebview mermaidCode theme appearance\<rparr>)))"

definition renderSingle :: "int \<Rightarrow> string option \<Rightarrow> world \<Rightarrow> world" where
  "renderSingle lineNumber overrideTheme w =
     (case currentDocument w of
        None \<Rightarrow> w\<lparr>html := getErrorHtml ''No document to preview''\<rparr>
      | Some document \<Rightarrow>
          (case extractMermaidCodeAtLine document lineNumber of
             None \<Rightarrow> w\<lparr>html := getErrorHtml ''No Mermaid diagram found at this position.''\<rparr>
           | Some mermaidCode \<Rightarrow>
               if mermaidCode = [] then
                 w\<lparr>html := getErrorHtml ''No Mermaid diagram found at this position.''\<rparr>
               else
                 (case resolveTheme overrideTheme w of
                    (theme, appearance) \<Rightarrow>
                      w\<lparr>html := getHtmlForWebview mermaidCode theme appearance\<rparr>)))"

definition render :: "string option \<Rightarrow> world \<Rightarrow> world" where
  "render overrideTheme w =
     (case singleLine w of
        Some line \<Rightarrow>
          if mode w = mode_single then renderSingle line overrideTheme w
          else renderAll overrideTheme w
      | None \<Rightarrow> renderAll overrideTheme w)"

definition setMode :: "PreviewMode \<Rightarrow> int option \<Rightarrow> world \<Rightarrow> world" where
  "setMode m lineNumber w = w\<lparr>mode := m, singleLine := lineNumber\<rparr>"

definition switchToAllMode :: "TextDocument \<Rightarrow> world \<Rightarrow> world" where
  "switchToAllMode document w =
     render None (setMode mode_all None (w\<lparr>currentDocument := Some document\<rparr>))"

definition switchToSingleMode :: "TextDocument \<Rightarrow> int \<Rightarrow> world \<Rightarrow> world" where
  "switchToSingleMode document lineNumber w =
     renderSingle lineNumber None
       (setMode mode_single (Some lineNumber) (w\<lparr>currentDocument := Some document\<rparr>))"

text \<open>
  The host's timers: \<open>setTimeout\<close> adds a pending timer under a fresh handle,
  \<open>clearTimeout\<close> removes the timer with the given handle if it is still pending.
\<close>

definition setTimeout :: "int \<Rightarrow> world \<Rightarrow> nat \<times> world" where
  "setTimeout delay w =
     (nextHandle w, w\<lparr>timers := timers w @ [(nextHandle w, delay)], nextHandle := Suc (nextHandle w)\<rparr>)"

definition clearTimeout :: "nat \<Rightarrow> world \<Rightarrow> world" where
  "clearTimeout h w = w\<lparr>timers := filter (\<lambda>(h', delay). h' \<noteq> h) (timers w)\<rparr>"

definition updateContent :: "TextDocument \<Rightarrow> world \<Rightarrow> world" where
  "updateContent document w =
     (let w1 = w\<lparr>currentDocument := Some document\<rparr>
      in if mode w1 \<noteq> mode_all then w1
         else
           let w2 = (case updateTimeout w1 of Some h \<Rightarrow> clearTimeout h w1 | None \<Rightarrow> w1);
               delay = config_get (cfg_refreshDelay (config w2)) 500
           in (case setTimeout delay w2 of
                 (h, w3) \<Rightarrow> w3\<lparr>updateTimeout := Some h\<rparr>))"

text \<open>A pending timer expires: it is no longer pending and its callback renders.\<close>

definition timer_expires :: "nat \<Rightarrow> world \<Rightarrow> world option" where
  "timer_expires h w =
     (if h \<in> set (map fst (timers w))
      then Some (render None (w\<lparr>timers := filter (\<lambda>(h', delay). h' \<noteq> h) (timers w)\<rparr>))
      else None)"

definition updateContentAtLine :: "TextDocument \<Rightarrow> int \<Rightarrow> world \<Rightarrow> world" where
  "updateContentAtLine document lineNumber w = switchToSingleMode document lineNumber w"

definition handleThemeChange :: "string \<Rightarrow> world \<Rightarrow> world" where
  "handleThemeChange t w =
     render (Some t) (w\<lparr>configUpdates := configUpdates w @ [SetUseVSCodeTheme False, SetTheme t]\<rparr>)"

definition saveThemePreference :: "string \<Rightarrow> world \<Rightarrow> world" where
  "saveThemePreference t w = w\<lparr>configUpdates := configUpdates w @ [SetTheme t]\<rparr>"

definition refreshAppearance :: "world \<Rightarrow> world" where
  "refreshAppearance w = (if currentDocument w = None then w else render None w)"

text \<open>
  \<open>_handleAppearanceChange\<close> waits for the update of the setting before it renders.
\<close>

definition handleAppearanceChange :: "PreviewAppearance \<Rightarrow> world \<Rightarrow> world" where
  "handleAppearanceChange appearance w =
     refreshAppearance
       (w\<lparr>config := (config w)\<lparr>cfg_previewAppearance := Some appearance\<rparr>,
          configUpdates := configUpdates w @ [SetPreviewAppearance appearance]\<rparr>)"

text \<open>
  The constructor, and the two ways a panel is created. The host is the state of the
  world before the panel exists; \<open>timers\<close> holds the timers of this panel only, so a
  panel starts on a host where it is empty.
\<close>

definition new_panel :: "TextDocument \<Rightarrow> PreviewMode \<Rightarrow> int option \<Rightarrow> world \<Rightarrow> world" where
  "new_panel document m line host =
     render None
       (host\<lparr>currentDocument := Some document, mode := m, singleLine := line,
             updateTimeout := None, html := NoHtml\<rparr>)"

definition createOrShow :: "TextDocument \<Rightarrow> world \<Rightarrow> world" where
  "createOrShow document host = new_panel document mode_all None host"

definition createOrShowSingle :: "TextDocument \<Rightarrow> int \<Rightarrow> world \<Rightarrow> world" where
  "createOrShowSingle document lineNumber host =
     new_panel document mode_single (Some lineNumber) host"

text \<open>
  What can happen to a panel once it exists: the calls the extension makes, the messages
  of the webview, the expiry of a pending timer, and changes of the settings and of the
  colour theme made outside the panel.
\<close>

datatype event =
  UpdateContent TextDocument
| UpdateContentAtLine TextDocument int
| ShowAgain TextDocument
| ChangeTheme string
| SaveThemePreference string
| ChangeAppearance PreviewAppearance
| RefreshAppearance
| TimerExpires nat
| HostChanges Config ColorThemeKind

fun step :: "event \<Rightarrow> world \<Rightarrow> world option" where
  "step (UpdateContent document) w = Some (updateContent document w)"
| "step (UpdateContentAtLine document lineNumber) w = Some (updateContentAtLine document lineNumber w)"
| "step (ShowAgain document) w = Some (switchToAllMode document w)"
| "step (ChangeTheme t) w = Some (handleThemeChange t w)"
| "step (SaveThemePreference t) w = Some (saveThemePreference t w)"
| "step (ChangeAppearance a) w = Some (handleAppearanceChange a w)"
| "step RefreshAppearance w = Some (refreshAppearance w)"
| "step (TimerExpires h) w = timer_expires h w"
| "step (HostChanges c k) w = Some (w\<lparr>config := c, activeColorTheme := k\<rparr>)"

fun run :: "event list \<Rightarrow> world \<Rightarrow> world option" where
  "run [] w = Some w"
| "run (e # es) w = (case step e w of None \<Rightarrow> None | Some w' \<Rightarrow> run es w')"


definition initial :: "world \<Rightarrow> bool" where
  "initial w \<longleftrightarrow>
     (\<exists>host document. timers host = [] \<and> w = createOrShow document host) \<or>
     (\<exists>host document lineNumber. timers host = [] \<and> w = createOrShowSingle document lineNumber host)"

text \<open>The states a panel can be in.\<close>

inductive reachable :: "world \<Rightarrow> bool" where
  reach_initial: "initial w \<Longrightarrow> reachable w"
| reach_step: "reachable w \<Longrightarrow> step e w = Some w' \<Longrightarrow> reachable w'"

section \<open>Regular expressions, documents and the logger as objects\<close>

text \<open>
  The two extraction methods once more, statement by statement, on the objects they work
  with. A regular expression with the flag \<open>g\<close> is an object with a state: \<open>exec\<close> starts
  at its \<open>lastIndex\<close> and writes it. A regular-expression literal creates a new object,
  with \<open>lastIndex = 0\<close>, every time it is evaluated. The literals of the two methods
  are the two patterns below: the fence pattern of \<open>mermaidRegex\<close>, and
  \<open>/```mermaid/g\<close> of \<open>simpleRegex\<close>.
\<close>

datatype pattern = FencePattern | SimplePattern

text \<open>
  A match of a pattern at the start of a string: \<open>match_here\<close> for the fence pattern,
  the literal text for the other.
\<close>

definition pattern_match :: "pattern \<Rightarrow> jsstring \<Rightarrow> regex_match option" where
  "pattern_match p s =
     (case p of
        FencePattern \<Rightarrow> match_here s
      | SimplePattern \<Rightarrow>
          (case lit FENCE_MERMAID s of
             [] \<Rightarrow> None
           | r # _ \<Rightarrow> Some \<lparr>matched = take (length s - length r) s, group1 = []\<rparr>))"

text \<open>
  The search of \<open>RegExp.prototype.exec\<close>: the first index from \<open>i\<close> on at which the
  pattern matches; there is none beyond the end of the string.
\<close>

function scan :: "pattern \<Rightarrow> jsstring \<Rightarrow> nat \<Rightarrow> (nat \<times> regex_match) option" where
  "scan p tx i =
     (if length tx < i then None
      else case pattern_match p (drop i tx) of
             Some m \<Rightarrow> Some (i, m)
           | None \<Rightarrow> scan p tx (Suc i))"
  by pat_completeness auto
termination
  by (relation "measure (\<lambda>(p, tx, i). Suc (length tx) - i)") auto

declare scan.simps [simp del]

text \<open>
  The objects. The panel has the fields of \<open>world\<close>. Documents and regular
  expressions are referred to by number; \<open>regexp_count\<close> regular expressions have
  been created so far. The class \<open>Logger\<close> of \<open>./util/logger\<close> is not part of the
  sources: the state of the logger is of an arbitrary type \<open>'l\<close>, and what a call of one
  of its methods does is a parameter of \<open>extractMermaidCode_run\<close> below.
\<close>

record 'l objects =
  panel :: world
  documents :: "nat \<Rightarrow> TextDocument"
  regexp_count :: nat
  pattern_of :: "nat \<Rightarrow> pattern"
  lastIndex :: "nat \<Rightarrow> nat"
  logger_object :: 'l

text \<open>
  Evaluating a regular-expression literal, or \<open>new RegExp\<close>: a new object with the
  given pattern and \<open>lastIndex\<close>.
\<close>

definition new_RegExp :: "pattern \<Rightarrow> nat \<Rightarrow> 'l objects \<Rightarrow> nat \<times> 'l objects" where
  "new_RegExp p i s =
     (regexp_count s,
      s\<lparr>regexp_count := Suc (regexp_count s),
        pattern_of := (pattern_of s)(regexp_count s := p),
        lastIndex := (lastIndex s)(regexp_count s := i)\<rparr>)"

text \<open>
  \<open>RegExp.prototype.exec\<close> on a regular expression with the flag \<open>g\<close>: the search
  starts at \<open>lastIndex\<close>, which becomes the end of the match, and \<open>0\<close> when there is
  no match.
\<close>

definition exec :: "nat \<Rightarrow> jsstring \<Rightarrow> 'l objects \<Rightarrow> (nat \<times> regex_match) option \<times> 'l objects" where
  "exec r tx s =
     (case scan (pattern_of s r) tx (lastIndex s r) of
        None \<Rightarrow> (None, s\<lparr>lastIndex := (lastIndex s)(r := 0)\<rparr>)
      | Some (j, m) \<Rightarrow> (Some (j, m), s\<lparr>lastIndex := (lastIndex s)(r := j + length (matched m))\<rparr>))"

lemma scan_range:
  "scan p tx i = Some (j, m) \<Longrightarrow> i \<le> j \<and> j \<le> length tx \<and> pattern_match p (drop j tx) = Some m"
proof (induction p tx i rule: scan.induct)
  case (1 p tx i)
  show ?case
  proof (cases "pattern_match p (drop i tx)")
    case None
    with "1.prems" have "\<not> length tx < i" and "scan p tx (Suc i) = Some (j, m)"
      by (auto simp: scan.simps [of p tx i] split: if_splits)
    with "1.IH" None show ?thesis by fastforce
  next
    case (Some m')
    with "1.prems" have "\<not> length tx < i" and "j = i" and "m' = m"
      by (auto simp: scan.simps [of p tx i] split: if_splits)
    with Some show ?thesis by auto
  qed
qed

lemma exec_advances:
  assumes "exec r tx s = (Some (j, m), s1)"
  shows "lastIndex s r \<le> j" and "j \<le> length tx" and "lastIndex s1 r = j + length (matched m)"
proof -
  from assms have sc: "scan (pattern_of s r) tx (lastIndex s r) = Some (j, m)"
    and s1: "s1 = s\<lparr>lastIndex := (lastIndex s)(r := j + length (matched m))\<rparr>"
    by (auto simp: exec_def split: option.splits)
  from scan_range [OF sc] show "lastIndex s r \<le> j" and "j \<le> length tx" by simp_all
  from s1 show "lastIndex s1 r = j + length (matched m)" by simp
qed

text \<open>
  The iteration of \<open>String.prototype.matchAll\<close> over its matcher, to the end as the
  spread \<open>[...]\<close> runs it: \<open>exec\<close> until it fails; after an empty match \<open>lastIndex\<close>
  is advanced by one.
\<close>

function drain :: "nat \<Rightarrow> jsstring \<Rightarrow> 'l objects \<Rightarrow> (nat \<times> regex_match) list \<times> 'l objects" where
  "drain r tx s =
     (case exec r tx s of
        (None, s1) \<Rightarrow> ([], s1)
      | (Some (j, m), s1) \<Rightarrow>
          let s2 = (if matched m = []
                    then s1\<lparr>lastIndex := (lastIndex s1)(r := Suc (lastIndex s1 r))\<rparr>
                    else s1)
          in (case drain r tx s2 of (ms, s3) \<Rightarrow> ((j, m) # ms, s3)))"
  by pat_completeness auto
termination
proof (relation "measure (\<lambda>(r, tx, s). Suc (length tx) - lastIndex s r)")
  show "wf (measure (\<lambda>(r, tx, s). Suc (length tx) - lastIndex s r))" by simp
next
  fix r :: nat and tx :: jsstring and s :: "'l objects" and x1 s1 x2 j m s2
  assume "(x1, s1) = exec r tx s" and "x1 = Some x2" and "(j, m) = x2"
    and s2: "s2 = (if matched m = []
                    then s1\<lparr>lastIndex := (lastIndex s1)(r := Suc (lastIndex s1 r))\<rparr>
                    else s1)"
  then have e: "exec r tx s = (Some (j, m), s1)" by simp
  from exec_advances [OF e] s2 have "lastIndex s r < lastIndex s2 r" and "lastIndex s r \<le> length tx"
    by (cases "matched m"; simp)+
  then show "((r, tx, s2), r, tx, s) \<in> measure (\<lambda>(r, tx, s). Suc (length tx) - lastIndex s r)"
    by simp
qed

declare drain.simps [simp del]

lemma pattern_match_nonempty: "pattern_match p s = Some m \<Longrightarrow> matched m \<noteq> []"
proof (cases p)
  case FencePattern
  assume "pattern_match p s = Some m"
  with FencePattern have "match_here s = Some m" by (simp add: pattern_match_def)
  then show ?thesis by (rule match_here_nonempty(1))
next
  case SimplePattern
  assume "pattern_match p s = Some m"
  with SimplePattern obtain r rs where l: "lit FENCE_MERMAID s = r # rs"
    and m: "m = \<lparr>matched = take (length s - length r) s, group1 = []\<rparr>"
    by (auto simp: pattern_match_def split: list.splits)
  from l have "r \<in> set (lit FENCE_MERMAID s)" by simp
  from lit_shorter [OF this] have "length r < length s"
    by (simp add: FENCE_MERMAID_def FENCE_def utf16_def)
  with m show ?thesis by auto
qed

text \<open>
  The loop of \<open>_extractMermaidCodeAtLine\<close> on the object \<open>mermaidRegex\<close>.
\<close>

function extractAtLine_steps ::
  "nat \<Rightarrow> jsstring \<Rightarrow> nat \<Rightarrow> int \<Rightarrow> 'l objects \<Rightarrow> jsstring option \<times> 'l objects" where
  "extractAtLine_steps mermaidRegex tx document lineNumber s =
     (case exec mermaidRegex tx s of
        (None, s1) \<Rightarrow> (None, s1)
      | (Some (j, m), s1) \<Rightarrow>
          let startPos_line = positionAt_line (documents s1 document) j;
              endPos_line = positionAt_line (documents s1 document) (j + length (matched m))
          in if lineNumber \<ge> startPos_line \<and> lineNumber \<le> endPos_line
                \<and> length (trim (group1 m)) > 0
             then (Some (JSON_stringify [trim (group1 m)]), s1)
             else extractAtLine_steps mermaidRegex tx document lineNumber s1)"
  by pat_completeness auto
termination
proof (relation "measure (\<lambda>(r, tx, document, lineNumber, s). Suc (length tx) - lastIndex s r)")
  show "wf (measure (\<lambda>(r, tx, document, lineNumber, s). Suc (length tx) - lastIndex s r))"
    by simp
next
  fix r :: nat and tx :: jsstring and document :: nat and lineNumber :: int
    and s :: "'l objects" and x1 s1 x2 j m a b
  assume "(x1, s1) = exec r tx s" and "x1 = Some x2" and "(j, m) = x2"
  then have e: "exec r tx s = (Some (j, m), s1)" by simp
  then have "scan (pattern_of s r) tx (lastIndex s r) = Some (j, m)"
    by (auto simp: exec_def split: option.splits)
  from scan_range [OF this] have "pattern_match (pattern_of s r) (drop j tx) = Some m" by simp
  then have "matched m \<noteq> []" by (rule pattern_match_nonempty)
  with exec_advances [OF e] have "lastIndex s r < lastIndex s1 r" and "lastIndex s r \<le> length tx"
    by (cases "matched m"; simp)+
  then show "((r, tx, document, lineNumber, s1), r, tx, document, lineNumber, s)
      \<in> measure (\<lambda>(r, tx, document, lineNumber, s). Suc (length tx) - lastIndex s r)"
    by simp
qed

declare extractAtLine_steps.simps [simp del]

definition extractMermaidCodeAtLine_run ::
  "nat \<Rightarrow> int \<Rightarrow> 'l objects \<Rightarrow> jsstring option \<times> 'l objects" where
  "extractMermaidCodeAtLine_run document lineNumber s =
     (let tx = getText (documents s document)
      in case new_RegExp FencePattern 0 s of
           (mermaidRegex, s1) \<Rightarrow> extractAtLine_steps mermaidRegex tx document lineNumber s1)"

text \<open>
  \<open>text.matchAll(r)\<close> iterates over a matcher of its own, a new regular expression
  with the pattern and the \<open>lastIndex\<close> of \<open>r\<close>.
\<close>

definition matchAll_run ::
  "nat \<Rightarrow> jsstring \<Rightarrow> 'l objects \<Rightarrow> (nat \<times> regex_match) list \<times> 'l objects" where
  "matchAll_run r tx s =
     (case new_RegExp (pattern_of s r) (lastIndex s r) s of
        (matcher, s1) \<Rightarrow> drain matcher tx s1)"

text \<open>
  \<open>_extractMermaidCode\<close>; \<open>call_logger\<close> is a call of a method of the logger.
\<close>

definition extractMermaidCode_run ::
  "(log_entry \<Rightarrow> 'l objects \<Rightarrow> 'l objects) \<Rightarrow> nat \<Rightarrow> 'l objects \<Rightarrow> jsstring option \<times> 'l objects" where
  "extractMermaidCode_run call_logger document s =
     (let tx = getText (documents s document);
          s1 = call_logger (logDebug ''MermaidDetection'' ''Document snapshot'') s
      in case new_RegExp FencePattern 0 s1 of
           (mermaidRegex, s2) \<Rightarrow>
             (case matchAll_run mermaidRegex tx s2 of
                (matches, s3) \<Rightarrow>
                  let s4 = call_logger (logDebug ''MermaidDetection'' ''Number of matches found'') s3
                  in if length matches = 0 then
                       let s5 = call_logger (logDebug ''MermaidDetection'' ''Fallback flags'') s4
                       in case new_RegExp SimplePattern 0 s5 of
                            (simpleRegex, s6) \<Rightarrow>
                              (case matchAll_run simpleRegex tx s6 of
                                 (simpleMatches, s7) \<Rightarrow>
                                   (None, call_logger
                                      (logDebug ''MermaidDetection'' ''Simple pattern matches'') s7))
                     else
                       let diagrams = filter (\<lambda>code. length code > 0)
                                        (map (\<lambda>(j, m). trim (group1 m)) matches);
                           s5 = call_logger (logDebug ''MermaidDetection'' ''Valid diagrams detected'') s4
                       in if length diagrams = 0 then (None, s5)
                          else (Some (JSON_stringify diagrams), s5)))"


section \<open>Export\<close>

fun show_nat :: "nat \<Rightarrow> string" where
  "show_nat n =
     (if n < 10 then [''0123456789'' ! n]
      else show_nat (n div 10) @ [''0123456789'' ! (n mod 10)])"

declare show_nat.simps [simp del]

text \<open>The decimal text of an integer, as a template literal inserts a number.\<close>

definition show_int :: "int \<Rightarrow> string" where
  "show_int i = (if i < 0 then ''-'' @ show_nat (nat (- i)) else show_nat (nat i))"

text \<open>
  What \<open>_handleExportDiagram\<close> does to the host, in order. \<open>WriteFile\<close> is the call of
  \<open>workspace.fs.writeFile\<close> with the path and the base64 text that is decoded into the
  buffer.
\<close>

datatype effect =
  Log log_entry
| ShowSaveDialog string "(string \<times> string list) list"
| WriteFile string string
| ShowInformationMessage string
| ShowErrorMessage string

definition export_filters :: "string \<Rightarrow> (string \<times> string list) list" where
  "export_filters format =
     (if format = ''svg'' then [(''SVG Image'', [''svg''])]
      else if format = ''png'' then [(''PNG Image'', [''png''])]
      else if format = ''jpg'' then [(''JPEG Image'', [''jpg'', ''jpeg''])]
      else [])"

text \<open>
  The host's answers are arguments: \<open>dialog\<close> is the path the user chose in the save
  dialog, \<open>None\<close> when the dialog was cancelled; \<open>write_error\<close> is the error that
  \<open>writeFile\<close> throws, \<open>None\<close> when it succeeds.
\<close>

definition handleExportDiagram ::
  "string \<Rightarrow> string \<Rightarrow> int \<Rightarrow> string option \<Rightarrow> string option \<Rightarrow> effect list" where
  "handleExportDiagram data format index dialog write_error =
     [Log (logDebug ''Export'' ''Handling export request''),
      Log (logDebug ''Export'' ''Showing save dialog''),
      ShowSaveDialog (''mermaid-diagram-'' @ show_int (index + 1) @ ''.'' @ format)
        (export_filters format),
      Log (logInfo ''Export dialog closed'')] @
     (case dialog of
        None \<Rightarrow> []
      | Some fsPath \<Rightarrow>
          (case write_error of
             None \<Rightarrow>
               [WriteFile fsPath data,
                ShowInformationMessage (''Diagram exported to '' @ fsPath),
                Log (logInfo ''Diagram exported successfully'')]
           | Some error \<Rightarrow>
               [WriteFile fsPath data,
                Log (logError ''Failed to export diagram''),
                ShowErrorMessage (''Failed to export diagram: '' @ error)]))"

section \<open>Zoom in the webview\<close>

text \<open>
  The script of the page keeps \<open>currentZoom\<close> as a JavaScript number. A number is a
  binary64 value, taken here as the real it denotes; \<open>rnd\<close> is the rounding of a real
  result to a binary64 value, and \<open>tenth\<close> is the value of the literal \<open>0.1\<close>. The
  literals \<open>0.5\<close>, \<open>1.0\<close> and \<open>5.0\<close> denote themselves.
\<close>

definition tenth :: real where
  "tenth = 3602879701896397 / 36028797018963968"

definition zoomIn :: "(real \<Rightarrow> real) \<Rightarrow> real \<Rightarrow> real" where
  "zoomIn rnd currentZoom = min (rnd (currentZoom + tenth)) 5"

definition zoomOut :: "(real \<Rightarrow> real) \<Rightarrow> real \<Rightarrow> real" where
  "zoomOut rnd currentZoom = max (rnd (currentZoom - tenth)) (1 / 2)"

definition zoomReset :: "real \<Rightarrow> real" where
  "zoomReset currentZoom = 1"

text \<open>\<open>handleWheel\<close>, with \<open>event.ctrlKey\<close> and \<open>event.deltaY\<close>.\<close>

definition handleWheel :: "(real \<Rightarrow> real) \<Rightarrow> bool \<Rightarrow> real \<Rightarrow> real \<Rightarrow> real" where
  "handleWheel rnd ctrlKey deltaY currentZoom =
     (if \<not> ctrlKey then currentZoom
      else if deltaY < 0 then zoomIn rnd currentZoom
      else zoomOut rnd currentZoom)"

datatype zoom_event = ClickZoomIn | ClickZoomOut | ClickZoomReset | Wheel bool real

fun zoom_step :: "(real \<Rightarrow> real) \<Rightarrow> zoom_event \<Rightarrow> real \<Rightarrow> real" where
  "zoom_step rnd ClickZoomIn z = zoomIn rnd z"
| "zoom_step rnd ClickZoomOut z = zoomOut rnd z"
| "zoom_step rnd ClickZoomReset z = zoomReset z"
| "zoom_step rnd (Wheel ctrlKey deltaY) z = handleWheel rnd ctrlKey deltaY z"

text \<open>The zoom after a sequence of events, from the initial \<open>currentZoom = 1.0\<close>.\<close>

definition zoom_after :: "(real \<Rightarrow> real) \<Rightarrow> zoom_event list \<Rightarrow> real" where
  "zoom_after rnd es = fold (zoom_step rnd) es 1"


section \<open>Fenced blocks, as the specification describes them\<close>

text \<open>
  The second description of the blocks, by the words of the specification rather than by
  the regular expression. An opening fence is \<open>```mermaid\<close>, white space that is not a
  line end, and a line end (\<open>\n\<close> or \<open>\r\n\<close>). A closing fence is \<open>```\<close>, with the
  line end before it if there is one.
\<close>

definition opening_fence :: "jsstring \<Rightarrow> bool" where
  "opening_fence f \<longleftrightarrow>
     (\<exists>ws. (\<forall>c \<in> set ws. isWhiteSpace c \<and> c \<noteq> LF \<and> c \<noteq> CR) \<and>
           (f = FENCE_MERMAID @ ws @ [LF] \<or> f = FENCE_MERMAID @ ws @ [CR, LF]))"

definition closing_fence :: "jsstring \<Rightarrow> bool" where
  "closing_fence g \<longleftrightarrow> g = FENCE \<or> g = [LF] @ FENCE \<or> g = [CR, LF] @ FENCE"

text \<open>
  A text starts with a block of body \<open>b\<close> when it is an opening fence, \<open>b\<close>, a closing
  fence and a rest, and no closing fence starts inside \<open>b\<close>: the block ends at the first
  closing fence. \<open>whole\<close> is the block with its fences.
\<close>

definition block_here :: "jsstring \<Rightarrow> jsstring \<Rightarrow> jsstring \<Rightarrow> bool" where
  "block_here s b whole \<longleftrightarrow>
     (\<exists>f g rest. s = f @ b @ g @ rest \<and> whole = f @ b @ g \<and>
        opening_fence f \<and> closing_fence g \<and>
        (\<forall>k < length b. \<not> (\<exists>g' r. closing_fence g' \<and> drop k (b @ g @ rest) = g' @ r)))"


text \<open>
  A block of the text \<open>tx\<close> from offset \<open>i\<close> to offset \<open>n\<close>, and the blocks of a text
  from an offset on in document order: the first block is the one that starts first, the
  others are the blocks after its end.
\<close>

definition block_at :: "jsstring \<Rightarrow> nat \<Rightarrow> jsstring \<Rightarrow> nat \<Rightarrow> bool" where
  "block_at tx i b n \<longleftrightarrow>
     i \<le> length tx \<and> (\<exists>whole. block_here (drop i tx) b whole \<and> n = i + length whole)"

inductive blocks_from :: "jsstring \<Rightarrow> nat \<Rightarrow> (nat \<times> jsstring \<times> nat) list \<Rightarrow> bool"
  for tx :: jsstring where
  blocks_none: "(\<And>i b n. start \<le> i \<Longrightarrow> \<not> block_at tx i b n) \<Longrightarrow> blocks_from tx start []"
| blocks_first:
    "start \<le> i \<Longrightarrow> block_at tx i b n \<Longrightarrow>
     (\<And>j b' n'. start \<le> j \<Longrightarrow> j < i \<Longrightarrow> \<not> block_at tx j b' n') \<Longrightarrow>
     blocks_from tx n bs \<Longrightarrow>
     blocks_from tx start ((i, b, n) # bs)"


text \<open>
  For the proofs: the first success of the capture group and the closing part, and a match
  seen as a block.
\<close>

fun first_close :: "jsstring \<Rightarrow> (jsstring \<times> jsstring) option" where
  "first_close [] = (case closer [] of [] \<Rightarrow> None | r # _ \<Rightarrow> Some ([], r))"
| "first_close (c # cs) = (case closer (c # cs) of [] \<Rightarrow> first_close cs | r # _ \<Rightarrow> Some (c # cs, r))"


definition to_block :: "nat \<times> regex_match \<Rightarrow> nat \<times> jsstring \<times> nat" where
  "to_block = (\<lambda>(j, m). (j, group1 m, j + length (matched m)))"


section \<open>Auxiliary definitions for the properties\<close>

text \<open>The values of the settings, with their defaults.\<close>

definition setting_useVSCodeTheme :: "world \<Rightarrow> bool" where
  "setting_useVSCodeTheme w = config_get (cfg_useVSCodeTheme (config w)) False"

definition setting_theme :: "world \<Rightarrow> string" where
  "setting_theme w = config_get (cfg_theme (config w)) ''default''"

definition setting_previewAppearance :: "world \<Rightarrow> PreviewAppearance" where
  "setting_previewAppearance w = config_get (cfg_previewAppearance (config w)) matchVSCode"


text \<open>
  The invariants of a panel: at most one timer is pending, and it is the one
  \<open>_updateTimeout\<close> refers to; a panel in single-diagram mode has its line, a panel in
  all-diagrams mode has none.
\<close>

definition timers_ok :: "world \<Rightarrow> bool" where
  "timers_ok w \<longleftrightarrow> timers w = [] \<or> (\<exists>h d. timers w = [(h, d)] \<and> updateTimeout w = Some h)"

definition mode_ok :: "world \<Rightarrow> bool" where
  "mode_ok w \<longleftrightarrow> (mode w = mode_single \<longrightarrow> singleLine w \<noteq> None) \<and>
                 (mode w = mode_all \<longrightarrow> singleLine w = None)"


text \<open>A host and a document to run the model on.\<close>

definition example_host :: world where
  "example_host =
     \<lparr>mode = mode_all, singleLine = None, currentDocument = None, updateTimeout = None,
      html = NoHtml, timers = [], nextHandle = 0,
      config = \<lparr>cfg_useVSCodeTheme = Some True, cfg_theme = Some ''forest'',
                cfg_previewAppearance = None, cfg_refreshDelay = None\<rparr>,
      activeColorTheme = Dark, logger = [], configUpdates = []\<rparr>"

definition example_document :: TextDocument where
  "example_document =
     \<lparr>uri = ''/notes.md'', languageId = ''markdown'',
      getText = utf16 ''# Notes'' @ [LF] @ FENCE_MERMAID @ [LF] @ utf16 ''graph TD'' @ [LF] @ FENCE @ [LF]\<rparr>"


text \<open>A document with three blocks, one of them empty.\<close>

definition example_document2 :: TextDocument where
  "example_document2 =
     \<lparr>uri = ''/diagrams.md'', languageId = ''markdown'',
      getText = FENCE_MERMAID @ utf16 '' '' @ [CR, LF] @ utf16 ''A-->B'' @ [CR, LF] @ FENCE @ [LF, LF]
                @ FENCE_MERMAID @ [LF, LF] @ FENCE @ [LF]
                @ FENCE_MERMAID @ [LF] @ utf16 ''pie'' @ FENCE\<rparr>"


text \<open>
  A body that is the body of one block however its fences are written: it has no
  \<open>```\<close> inside and does not end in a backtick. The line end that may stand before the
  closing fence. A document that is one block, written with the given white space after
  the opening fence and the given line ends.
\<close>

definition fence_free :: "jsstring \<Rightarrow> bool" where
  "fence_free body \<longleftrightarrow> \<not> sublist FENCE body \<and> (body = [] \<or> last body \<noteq> BACKTICK)"


definition fence_line_end :: "jsstring \<Rightarrow> bool" where
  "fence_line_end nl \<longleftrightarrow> nl = [] \<or> nl = [LF] \<or> nl = [CR, LF]"


definition fenced :: "jsstring \<Rightarrow> jsstring \<Rightarrow> jsstring \<Rightarrow> jsstring \<Rightarrow> TextDocument" where
  "fenced ws nl1 body nl2 =
     \<lparr>uri = ''/variant.md'', languageId = ''markdown'',
      getText = FENCE_MERMAID @ ws @ nl1 @ body @ nl2 @ FENCE\<rparr>"


text \<open>The parts of a trace of effects.\<close>

definition dialogs :: "effect list \<Rightarrow> (string \<times> (string \<times> string list) list) list" where
  "dialogs tr = concat (map (\<lambda>e. case e of ShowSaveDialog n f \<Rightarrow> [(n, f)] | _ \<Rightarrow> []) tr)"

definition writes :: "effect list \<Rightarrow> (string \<times> string) list" where
  "writes tr = concat (map (\<lambda>e. case e of WriteFile p d \<Rightarrow> [(p, d)] | _ \<Rightarrow> []) tr)"

definition information_messages :: "effect list \<Rightarrow> string list" where
  "information_messages tr = concat (map (\<lambda>e. case e of ShowInformationMessage m \<Rightarrow> [m] | _ \<Rightarrow> []) tr)"

definition error_messages :: "effect list \<Rightarrow> string list" where
  "error_messages tr = concat (map (\<lambda>e. case e of ShowErrorMessage m \<Rightarrow> [m] | _ \<Rightarrow> []) tr)"


text \<open>
  What is assumed of the logger: a call changes the logger and no other object.
\<close>

definition logger_only :: "(log_entry \<Rightarrow> 'l objects \<Rightarrow> 'l objects) \<Rightarrow> bool" where
  "logger_only call_logger \<longleftrightarrow>
     (\<forall>e s. \<exists>l. call_logger e s = s\<lparr>logger_object := l\<rparr>)"

text \<open>
  The objects that existed before are as they were: the panel, the documents, and the
  regular expressions created before, with their \<open>lastIndex\<close>.
\<close>

definition untouched :: "'l objects \<Rightarrow> 'l objects \<Rightarrow> bool" where
  "untouched s s' \<longleftrightarrow>
     panel s' = panel s \<and> documents s' = documents s \<and> regexp_count s \<le> regexp_count s' \<and>
     (\<forall>r < regexp_count s. lastIndex s' r = lastIndex s r \<and> pattern_of s' r = pattern_of s r)"

text \<open>
  Two relations for the steps of a call: only the \<open>lastIndex\<close> of one regular
  expression differs; the panel, the documents and the first \<open>n\<close> regular expressions
  are the same.
\<close>

definition only_lastIndex :: "nat \<Rightarrow> 'l objects \<Rightarrow> 'l objects \<Rightarrow> bool" where
  "only_lastIndex r s s' \<longleftrightarrow>
     (\<exists>f. s' = s\<lparr>lastIndex := f\<rparr> \<and> (\<forall>r'. r' \<noteq> r \<longrightarrow> f r' = lastIndex s r'))"

definition kept :: "nat \<Rightarrow> 'l objects \<Rightarrow> 'l objects \<Rightarrow> bool" where
  "kept n s s' \<longleftrightarrow>
     panel s' = panel s \<and> documents s' = documents s \<and> regexp_count s \<le> regexp_count s' \<and>
     (\<forall>r < n. lastIndex s' r = lastIndex s r \<and> pattern_of s' r = pattern_of s r)"

text \<open>
  A logger that keeps the list of its calls, and a state of the objects: one panel, two
  documents with the same text, and one regular expression, created earlier, with the
  fence pattern and \<open>lastIndex = 7\<close>.
\<close>

definition example_logger :: "log_entry \<Rightarrow> log_entry list objects \<Rightarrow> log_entry list objects" where
  "example_logger e s = s\<lparr>logger_object := logger_object s @ [e]\<rparr>"

definition example_objects :: "log_entry list objects" where
  "example_objects =
     \<lparr>panel = example_host,
      documents = (\<lambda>r. if r = 0 then example_document2
                       else example_document2\<lparr>uri := ''/copy.md''\<rparr>),
      regexp_count = 1,
      pattern_of = (\<lambda>r. FencePattern),
      lastIndex = (\<lambda>r. 7),
      logger_object = []\<rparr>"


section \<open>The zoom level stays in its range\<close>


lemma tenth_pos: "0 < tenth"
  by (simp add: tenth_def)

lemma zoomIn_bounds:
  assumes "mono rnd" and "rnd (1 / 2) = 1 / 2" and "1 / 2 \<le> z"
  shows "1 / 2 \<le> zoomIn rnd z" and "zoomIn rnd z \<le> 5"
proof -
  have "1 / 2 \<le> z + tenth" using assms(3) tenth_pos by simp
  then have "rnd (1 / 2) \<le> rnd (z + tenth)" by (rule monoD [OF assms(1)])
  then show "1 / 2 \<le> zoomIn rnd z" by (simp add: zoomIn_def assms(2))
  show "zoomIn rnd z \<le> 5" by (simp add: zoomIn_def)
qed

lemma zoomOut_bounds:
  assumes "mono rnd" and "rnd 5 = 5" and "z \<le> 5"
  shows "1 / 2 \<le> zoomOut rnd z" and "zoomOut rnd z \<le> 5"
proof -
  have "z - tenth \<le> 5" using assms(3) tenth_pos by simp
  then have "rnd (z - tenth) \<le> rnd 5" by (rule monoD [OF assms(1)])
  then show "zoomOut rnd z \<le> 5" by (simp add: zoomOut_def assms(2))
  show "1 / 2 \<le> zoomOut rnd z" by (simp add: zoomOut_def)
qed

lemma zoom_step_bounds:
  assumes "mono rnd" and "rnd (1 / 2) = 1 / 2" and "rnd 5 = 5"
    and "1 / 2 \<le> z" and "z \<le> 5"
  shows "1 / 2 \<le> zoom_step rnd e z \<and> zoom_step rnd e z \<le> 5"
proof (cases e)
  case ClickZoomIn
  then show ?thesis using zoomIn_bounds [OF assms(1,2,4)] by simp
next
  case ClickZoomOut
  then show ?thesis using zoomOut_bounds [OF assms(1,3,5)] by simp
next
  case ClickZoomReset
  then show ?thesis by (simp add: zoomReset_def)
next
  case (Wheel ctrlKey deltaY)
  then show ?thesis
    using zoomIn_bounds [OF assms(1,2,4)] zoomOut_bounds [OF assms(1,3,5)] assms(4,5)
    by (simp add: handleWheel_def)
qed

lemma fold_zoom_bounds:
  assumes "mono rnd" and "rnd (1 / 2) = 1 / 2" and "rnd 5 = 5"
  shows "1 / 2 \<le> z \<Longrightarrow> z \<le> 5 \<Longrightarrow>
    1 / 2 \<le> fold (zoom_step rnd) es z \<and> fold (zoom_step rnd) es z \<le> 5"
proof (induction es arbitrary: z)
  case Nil
  then show ?case by simp
next
  case (Cons e es)
  from zoom_step_bounds [OF assms Cons.prems]
  have "1 / 2 \<le> zoom_step rnd e z" and "zoom_step rnd e z \<le> 5" by simp_all
  from Cons.IH [OF this] show ?case by simp
qed

text \<open>
  Claim C9. From the initial value 1.0, after any sequence of zoom-in, zoom-out and reset
  clicks and wheel events, \<open>currentZoom\<close> lies between 0.5 and 5.0. This holds for
  every rounding of the sums that is monotone and leaves 0.5 and 5.0 as they are, as
  rounding to the nearest binary64 value does.
\<close>

theorem zoom_within_bounds:
  assumes "mono rnd" and "rnd (1 / 2) = 1 / 2" and "rnd 5 = 5"
  shows "1 / 2 \<le> zoom_after rnd es \<and> zoom_after rnd es \<le> 5"
  unfolding zoom_after_def using fold_zoom_bounds [OF assms, of 1 es] by simp

text \<open>An instance of the claim, with exact sums.\<close>

theorem zoom_within_bounds_witness:
  "mono (\<lambda>x::real. x) \<and> (\<lambda>x::real. x) (1 / 2) = 1 / 2 \<and> (\<lambda>x::real. x) 5 = 5 \<and>
   1 / 2 \<le> zoom_after (\<lambda>x. x) [ClickZoomIn, Wheel True (- 3), ClickZoomOut, Wheel True 2, ClickZoomReset, Wheel False 1, ClickZoomOut] \<and>
   zoom_after (\<lambda>x. x) [ClickZoomIn, Wheel True (- 3), ClickZoomOut, Wheel True 2, ClickZoomReset, Wheel False 1, ClickZoomOut] \<le> 5"
proof -
  have m: "mono (\<lambda>x::real. x)" by (simp add: mono_def)
  from zoom_within_bounds [OF m, of "[ClickZoomIn, Wheel True (- 3), ClickZoomOut, Wheel True 2, ClickZoomReset, Wheel False 1, ClickZoomOut]"] m
  show ?thesis by simp
qed



section \<open>Theme resolution\<close>

text \<open>
  Claim C3 as stated fails for an override that is the empty string: it is passed, yet
  the configured theme is used when \<open>useVSCodeTheme\<close> is off, and the host's colour
  theme decides when it is on.
\<close>

theorem resolveTheme_empty_override:
  "fst (resolveTheme (Some '''')
          (example_host\<lparr>config := (config example_host)\<lparr>cfg_useVSCodeTheme := Some False\<rparr>\<rparr>)) = ''forest'' \<and>
   fst (resolveTheme (Some '''') (example_host\<lparr>activeColorTheme := Dark\<rparr>)) = ''dark'' \<and>
   fst (resolveTheme (Some '''') (example_host\<lparr>activeColorTheme := Light\<rparr>)) = ''default''"
  by (simp add: resolveTheme_def example_host_def config_get_def)

text \<open>
  Claim C3, amended. When \<open>useVSCodeTheme\<close> is off, the resolved theme is the override
  if one is passed and is not the empty string, and the configured theme otherwise, and
  it does not depend on the host's colour theme. The host's colour theme changes the
  result only when \<open>useVSCodeTheme\<close> is on, the override is absent or empty, and
  \<open>previewAppearance\<close> is \<open>matchVSCode\<close>.
\<close>

theorem resolveTheme_decoupled:
  "(\<not> setting_useVSCodeTheme w \<longrightarrow>
      fst (resolveTheme overrideTheme w) =
        (case overrideTheme of
           None \<Rightarrow> setting_theme w
         | Some t \<Rightarrow> if t \<noteq> [] then t else setting_theme w) \<and>
      fst (resolveTheme overrideTheme (w\<lparr>activeColorTheme := k\<rparr>)) = fst (resolveTheme overrideTheme w)) \<and>
   (fst (resolveTheme overrideTheme (w\<lparr>activeColorTheme := k\<rparr>)) \<noteq> fst (resolveTheme overrideTheme w) \<longrightarrow>
      setting_useVSCodeTheme w \<and> (overrideTheme = None \<or> overrideTheme = Some []) \<and>
      setting_previewAppearance w = matchVSCode)"
  by (cases "setting_previewAppearance w")
     (auto simp: resolveTheme_def setting_useVSCodeTheme_def setting_theme_def
        setting_previewAppearance_def Let_def split: option.splits)

theorem resolveTheme_decoupled_witness:
  "\<not> setting_useVSCodeTheme (example_host\<lparr>config := (config example_host)\<lparr>cfg_useVSCodeTheme := Some False\<rparr>\<rparr>) \<and>
   fst (resolveTheme (Some ''neutral'') (example_host\<lparr>config := (config example_host)\<lparr>cfg_useVSCodeTheme := Some False\<rparr>\<rparr>)) = ''neutral'' \<and>
   fst (resolveTheme None (example_host\<lparr>config := (config example_host)\<lparr>cfg_useVSCodeTheme := Some False\<rparr>\<rparr>)) = ''forest'' \<and>
   fst (resolveTheme None (example_host\<lparr>activeColorTheme := Light\<rparr>)) \<noteq> fst (resolveTheme None example_host) \<and>
   setting_useVSCodeTheme example_host \<and> setting_previewAppearance example_host = matchVSCode"
  using resolveTheme_decoupled [of "example_host\<lparr>config := (config example_host)\<lparr>cfg_useVSCodeTheme := Some False\<rparr>\<rparr>" "Some ''neutral''" Light]
    resolveTheme_decoupled [of "example_host\<lparr>config := (config example_host)\<lparr>cfg_useVSCodeTheme := Some False\<rparr>\<rparr>" None Light]
    resolveTheme_decoupled [of example_host None Light]
  by (simp add: resolveTheme_def example_host_def config_get_def setting_useVSCodeTheme_def setting_theme_def setting_previewAppearance_def)

text \<open>
  The earlier \<open>_update\<close> resolves the theme as \<open>_resolveTheme\<close> does under the default
  appearance.
\<close>

lemma update_theme_resolveTheme:
  "setting_previewAppearance w = matchVSCode \<Longrightarrow> update_theme overrideTheme w = fst (resolveTheme overrideTheme w)"
  by (auto simp: update_theme_def resolveTheme_def setting_previewAppearance_def Let_def split: option.splits)

section \<open>What rendering changes\<close>

lemma extractMermaidCode_world:
  "snd (extractMermaidCode document w) =
     w\<lparr>logger := logger w @
        (if matchAll (getText document) 0 = []
         then [logDebug ''MermaidDetection'' ''Document snapshot'',
               logDebug ''MermaidDetection'' ''Number of matches found'',
               logDebug ''MermaidDetection'' ''Fallback flags'',
               logDebug ''MermaidDetection'' ''Simple pattern matches'']
         else [logDebug ''MermaidDetection'' ''Document snapshot'',
               logDebug ''MermaidDetection'' ''Number of matches found'',
               logDebug ''MermaidDetection'' ''Valid diagrams detected''])\<rparr>"
  by (simp add: extractMermaidCode_def Let_def log_def)

lemma extractMermaidCode_logs_only:
  "\<exists>es. snd (extractMermaidCode document w) = w\<lparr>logger := logger w @ es\<rparr>"
  using extractMermaidCode_world [of document w] by (intro exI)

lemma renderAll_changes:
  "\<exists>es h. renderAll overrideTheme w = w\<lparr>logger := logger w @ es, html := h\<rparr>"
proof (cases "currentDocument w")
  case None
  then have "renderAll overrideTheme w
        = w\<lparr>logger := logger w @ [], html := getErrorHtml ''No document to preview''\<rparr>"
    by (simp add: renderAll_def)
  then show ?thesis by (intro exI)
next
  case (Some document)
  obtain r w1 where e: "extractMermaidCode document w = (r, w1)"
    by (cases "extractMermaidCode document w")
  with extractMermaidCode_logs_only [of document w]
  obtain es where w1: "w1 = w\<lparr>logger := logger w @ es\<rparr>" by auto
  obtain t a where rt: "resolveTheme overrideTheme w1 = (t, a)"
    by (cases "resolveTheme overrideTheme w1")
  have "\<exists>h. renderAll overrideTheme w = w1\<lparr>html := h\<rparr>"
  proof (cases r)
    case None
    then have "renderAll overrideTheme w = w1\<lparr>html := getErrorHtml
                 ''No Mermaid diagram found. Wrap your diagram in ```mermaid code blocks.''\<rparr>"
      by (simp add: renderAll_def Some e)
    then show ?thesis by (intro exI)
  next
    case (Some mermaidCode)
    show ?thesis
    proof (cases "mermaidCode = []")
      case True
      then have "renderAll overrideTheme w = w1\<lparr>html := getErrorHtml
                 ''No Mermaid diagram found. Wrap your diagram in ```mermaid code blocks.''\<rparr>"
        by (simp add: renderAll_def \<open>currentDocument w = Some document\<close> e Some)
      then show ?thesis by (intro exI)
    next
      case False
      then have "renderAll overrideTheme w = w1\<lparr>html := getHtmlForWebview mermaidCode t a\<rparr>"
        by (simp add: renderAll_def \<open>currentDocument w = Some document\<close> e Some rt)
      then show ?thesis by (intro exI)
    qed
  qed
  then obtain h where "renderAll overrideTheme w = w1\<lparr>html := h\<rparr>" by (elim exE)
  then have "renderAll overrideTheme w = w\<lparr>logger := logger w @ es, html := h\<rparr>"
    by (simp only: w1)
  then show ?thesis by (intro exI)
qed

lemma renderSingle_changes:
  "\<exists>h. renderSingle lineNumber overrideTheme w = w\<lparr>html := h\<rparr>"
proof (cases "currentDocument w")
  case None
  then have "renderSingle lineNumber overrideTheme w
        = w\<lparr>html := getErrorHtml ''No document to preview''\<rparr>"
    by (simp add: renderSingle_def)
  then show ?thesis by (intro exI)
next
  case (Some document)
  obtain t a where rt: "resolveTheme overrideTheme w = (t, a)"
    by (cases "resolveTheme overrideTheme w")
  show ?thesis
  proof (cases "extractMermaidCodeAtLine document lineNumber")
    case None
    then have "renderSingle lineNumber overrideTheme w
        = w\<lparr>html := getErrorHtml ''No Mermaid diagram found at this position.''\<rparr>"
      by (simp add: renderSingle_def Some)
    then show ?thesis by (intro exI)
  next
    case (Some mermaidCode)
    show ?thesis
    proof (cases "mermaidCode = []")
      case True
      then have "renderSingle lineNumber overrideTheme w
        = w\<lparr>html := getErrorHtml ''No Mermaid diagram found at this position.''\<rparr>"
        by (simp add: renderSingle_def \<open>currentDocument w = Some document\<close> Some)
      then show ?thesis by (intro exI)
    next
      case False
      then have "renderSingle lineNumber overrideTheme w
        = w\<lparr>html := getHtmlForWebview mermaidCode t a\<rparr>"
        by (simp add: renderSingle_def \<open>currentDocument w = Some document\<close> Some rt)
      then show ?thesis by (intro exI)
    qed
  qed
qed

lemma render_changes:
  "\<exists>es h. render overrideTheme w = w\<lparr>logger := logger w @ es, html := h\<rparr>"
proof (cases "mode w = mode_single \<and> singleLine w \<noteq> None")
  case True
  then obtain line where "singleLine w = Some line" by auto
  with True have "render overrideTheme w = renderSingle line overrideTheme w"
    by (simp add: render_def)
  with renderSingle_changes [of line overrideTheme w]
  obtain h where "render overrideTheme w = w\<lparr>html := h\<rparr>" by auto
  then have "render overrideTheme w = w\<lparr>logger := logger w @ [], html := h\<rparr>" by simp
  then show ?thesis by (intro exI)
next
  case False
  then have "render overrideTheme w = renderAll overrideTheme w"
    by (auto simp: render_def split: option.splits)
  with renderAll_changes [of overrideTheme w] show ?thesis by simp
qed

lemma render_frame:
  "mode (render overrideTheme w) = mode w"
  "singleLine (render overrideTheme w) = singleLine w"
  "currentDocument (render overrideTheme w) = currentDocument w"
  "updateTimeout (render overrideTheme w) = updateTimeout w"
  "timers (render overrideTheme w) = timers w"
  "nextHandle (render overrideTheme w) = nextHandle w"
  "config (render overrideTheme w) = config w"
proof -
  from render_changes [of overrideTheme w]
  obtain es h where r: "render overrideTheme w = w\<lparr>logger := logger w @ es, html := h\<rparr>"
    by blast
  show "mode (render overrideTheme w) = mode w"
  "singleLine (render overrideTheme w) = singleLine w"
  "currentDocument (render overrideTheme w) = currentDocument w"
  "updateTimeout (render overrideTheme w) = updateTimeout w"
  "timers (render overrideTheme w) = timers w"
  "nextHandle (render overrideTheme w) = nextHandle w"
  "config (render overrideTheme w) = config w"
    unfolding r by simp_all
qed

lemma renderSingle_frame:
  "mode (renderSingle l overrideTheme w) = mode w"
  "singleLine (renderSingle l overrideTheme w) = singleLine w"
  "currentDocument (renderSingle l overrideTheme w) = currentDocument w"
  "updateTimeout (renderSingle l overrideTheme w) = updateTimeout w"
  "timers (renderSingle l overrideTheme w) = timers w"
  "nextHandle (renderSingle l overrideTheme w) = nextHandle w"
  "config (renderSingle l overrideTheme w) = config w"
proof -
  from renderSingle_changes [of l overrideTheme w]
  obtain h where r: "renderSingle l overrideTheme w = w\<lparr>html := h\<rparr>"
    by blast
  show "mode (renderSingle l overrideTheme w) = mode w"
  "singleLine (renderSingle l overrideTheme w) = singleLine w"
  "currentDocument (renderSingle l overrideTheme w) = currentDocument w"
  "updateTimeout (renderSingle l overrideTheme w) = updateTimeout w"
  "timers (renderSingle l overrideTheme w) = timers w"
  "nextHandle (renderSingle l overrideTheme w) = nextHandle w"
  "config (renderSingle l overrideTheme w) = config w"
    unfolding r by simp_all
qed

section \<open>Invariants of the panel\<close>

lemma updateContent_single:
  "mode w \<noteq> mode_all \<Longrightarrow> updateContent document w = w\<lparr>currentDocument := Some document\<rparr>"
  by (simp add: updateContent_def)

lemma updateContent_all:
  assumes "mode w = mode_all"
  shows "updateContent document w =
     w\<lparr>currentDocument := Some document,
       timers := filter (\<lambda>(h', delay). Some h' \<noteq> updateTimeout w) (timers w)
                 @ [(nextHandle w, config_get (cfg_refreshDelay (config w)) 500)],
       nextHandle := Suc (nextHandle w),
       updateTimeout := Some (nextHandle w)\<rparr>"
proof (cases "updateTimeout w")
  case None
  then show ?thesis using assms
    by (simp add: updateContent_def setTimeout_def)
next
  case (Some h)
  have "(\<lambda>(h', delay). h' \<noteq> h) = (\<lambda>(h', delay :: int). h \<noteq> h')" by auto
  with Some show ?thesis using assms
    by (simp add: updateContent_def setTimeout_def clearTimeout_def)
qed

lemma updateContent_pending:
  assumes "timers_ok w" and "mode w = mode_all"
  shows "timers (updateContent document w) = [(nextHandle w, config_get (cfg_refreshDelay (config w)) 500)]"
    and "updateTimeout (updateContent document w) = Some (nextHandle w)"
  using assms by (auto simp: updateContent_all timers_ok_def)

lemma updateContent_timers_ok: "timers_ok w \<Longrightarrow> timers_ok (updateContent document w)"
proof (cases "mode w = mode_all")
  case True
  assume "timers_ok w"
  from updateContent_pending [OF this True, of document] show ?thesis
    by (simp add: timers_ok_def)
next
  case False
  assume "timers_ok w"
  with False show ?thesis by (simp add: updateContent_single timers_ok_def)
qed

lemma render_timers_ok: "timers_ok w \<Longrightarrow> timers_ok (render overrideTheme w)"
  by (simp add: timers_ok_def render_frame)

lemma render_mode_ok: "mode_ok w \<Longrightarrow> mode_ok (render overrideTheme w)"
  by (simp add: mode_ok_def render_frame)

lemma timer_expires_timers:
  assumes "timer_expires h w = Some w'"
  shows "h \<in> set (map fst (timers w))"
    and "timers w' = filter (\<lambda>(h', delay). h' \<noteq> h) (timers w)"
    and "updateTimeout w' = updateTimeout w" and "mode w' = mode w" and "singleLine w' = singleLine w"
  using assms by (auto simp: timer_expires_def render_frame split: if_splits)

lemma refreshAppearance_frame:
  "mode (refreshAppearance w) = mode w"
  "singleLine (refreshAppearance w) = singleLine w"
  "updateTimeout (refreshAppearance w) = updateTimeout w"
  "timers (refreshAppearance w) = timers w"
  by (simp_all add: refreshAppearance_def render_frame)

lemma step_timers_ok:
  assumes "timers_ok w" and "step e w = Some w'"
  shows "timers_ok w'"
proof (cases e)
  case (UpdateContent document)
  with assms show ?thesis by (auto simp: updateContent_timers_ok)
next
  case (UpdateContentAtLine document lineNumber)
  with assms show ?thesis
    by (auto simp: updateContentAtLine_def switchToSingleMode_def setMode_def timers_ok_def renderSingle_frame)
next
  case (ShowAgain document)
  with assms show ?thesis
    by (auto simp: switchToAllMode_def setMode_def timers_ok_def render_frame)
next
  case (ChangeTheme t)
  with assms show ?thesis
    by (auto simp: handleThemeChange_def timers_ok_def render_frame)
next
  case (SaveThemePreference t)
  with assms show ?thesis by (auto simp: saveThemePreference_def timers_ok_def)
next
  case (ChangeAppearance a)
  with assms show ?thesis
    by (auto simp: handleAppearanceChange_def refreshAppearance_frame timers_ok_def)
next
  case RefreshAppearance
  with assms show ?thesis by (auto simp: refreshAppearance_frame timers_ok_def)
next
  case (TimerExpires h)
  with assms have "timer_expires h w = Some w'" by simp
  from timer_expires_timers(1,2,3) [OF this] assms(1) show ?thesis
    by (auto simp: timers_ok_def)
next
  case (HostChanges c k)
  with assms show ?thesis by (auto simp: timers_ok_def)
qed

lemma step_mode_ok:
  assumes "mode_ok w" and "step e w = Some w'"
  shows "mode_ok w'"
proof (cases e)
  case (UpdateContent document)
  with assms show ?thesis
    by (cases "mode w = mode_all") (auto simp: updateContent_all updateContent_single mode_ok_def)
next
  case (UpdateContentAtLine document lineNumber)
  with assms show ?thesis
    by (auto simp: updateContentAtLine_def switchToSingleMode_def setMode_def mode_ok_def renderSingle_frame)
next
  case (ShowAgain document)
  with assms show ?thesis
    by (auto simp: switchToAllMode_def setMode_def mode_ok_def render_frame)
next
  case (ChangeTheme t)
  with assms show ?thesis
    by (auto simp: handleThemeChange_def mode_ok_def render_frame)
next
  case (SaveThemePreference t)
  with assms show ?thesis by (auto simp: saveThemePreference_def mode_ok_def)
next
  case (ChangeAppearance a)
  with assms show ?thesis
    by (auto simp: handleAppearanceChange_def refreshAppearance_frame mode_ok_def)
next
  case RefreshAppearance
  with assms show ?thesis by (auto simp: refreshAppearance_frame mode_ok_def)
next
  case (TimerExpires h)
  with assms have "timer_expires h w = Some w'" by simp
  from timer_expires_timers(4,5) [OF this] assms(1) show ?thesis
    by (auto simp: mode_ok_def)
next
  case (HostChanges c k)
  with assms show ?thesis by (auto simp: mode_ok_def)
qed

lemma initial_ok: "initial w \<Longrightarrow> timers_ok w \<and> mode_ok w"
  by (auto simp: initial_def createOrShow_def createOrShowSingle_def new_panel_def
        timers_ok_def mode_ok_def render_frame)

lemma reachable_ok: "reachable w \<Longrightarrow> timers_ok w \<and> mode_ok w"
  by (induction rule: reachable.induct) (auto simp: initial_ok step_timers_ok step_mode_ok)

lemma expiries_bounded:
  "run (map TimerExpires hs) w = Some w' \<Longrightarrow> length hs \<le> length (timers w)"
proof (induction hs arbitrary: w)
  case Nil
  then show ?case by simp
next
  case (Cons h hs)
  then obtain w1 where e: "timer_expires h w = Some w1" and r: "run (map TimerExpires hs) w1 = Some w'"
    by (auto split: option.splits)
  from timer_expires_timers(1,2) [OF e]
  have "length (timers w1) < length (timers w)"
    by (auto intro!: length_filter_less)
  with Cons.IH [OF r] show ?case by simp
qed

lemma burst_state:
  assumes "timers_ok w" and "mode w = mode_all" and "ds \<noteq> []"
  shows "\<exists>w'. run (map UpdateContent ds) w = Some w' \<and> length (timers w') = 1 \<and>
           timers_ok w' \<and> mode w' = mode_all \<and>
           html w' = html w \<and> currentDocument w' = Some (last ds)"
  using assms
proof (induction ds arbitrary: w)
  case Nil
  then show ?case by simp
next
  case (Cons d ds)
  let ?w1 = "updateContent d w"
  have ok: "timers_ok ?w1" using Cons.prems(1) by (rule updateContent_timers_ok)
  have m: "mode ?w1 = mode_all" and h: "html ?w1 = html w"
    and c: "currentDocument ?w1 = Some d"
    using Cons.prems(2) by (simp_all add: updateContent_all)
  show ?case
  proof (cases "ds = []")
    case True
    with updateContent_pending [OF Cons.prems(1,2), of d] ok m h c show ?thesis by simp
  next
    case False
    from Cons.IH [OF ok m False] h False show ?thesis by simp
  qed
qed

section \<open>Debounced updates\<close>

text \<open>
  Claim C4. In every state a panel can reach at most one timer is pending. A call of
  \<open>updateContent\<close> in all-diagrams mode removes the timer \<open>_updateTimeout\<close> refers to
  and adds one with the configured \<open>refreshDelay\<close> (500 by default), which is then the
  only pending timer. A burst of calls leaves the page as it is and exactly one timer
  pending, so that at most one expiry, hence one render, can follow.
\<close>

theorem updateContent_debounced:
  assumes "reachable w"
  shows "length (timers w) \<le> 1 \<and>
    (mode w = mode_all \<longrightarrow>
       timers (updateContent document w) =
         filter (\<lambda>(h, delay). Some h \<noteq> updateTimeout w) (timers w)
           @ [(nextHandle w, config_get (cfg_refreshDelay (config w)) 500)] \<and>
       timers (updateContent document w) =
         [(nextHandle w, config_get (cfg_refreshDelay (config w)) 500)] \<and>
       (\<forall>ds. ds \<noteq> [] \<longrightarrow>
          (\<exists>w'. run (map UpdateContent ds) w = Some w' \<and> length (timers w') = 1 \<and>
                html w' = html w \<and> currentDocument w' = Some (last ds) \<and>
                (\<forall>hs w''. run (map TimerExpires hs) w' = Some w'' \<longrightarrow> length hs \<le> 1))))"
proof -
  from assms have ok: "timers_ok w" by (simp add: reachable_ok)
  then have one: "length (timers w) \<le> 1" by (auto simp: timers_ok_def)
  {
    assume m: "mode w = mode_all"
    have c: "timers (updateContent document w) =
         filter (\<lambda>(h, delay). Some h \<noteq> updateTimeout w) (timers w)
           @ [(nextHandle w, config_get (cfg_refreshDelay (config w)) 500)]"
      by (simp add: updateContent_all [OF m])
    have p: "timers (updateContent document w) =
         [(nextHandle w, config_get (cfg_refreshDelay (config w)) 500)]"
      by (rule updateContent_pending(1) [OF ok m])
    have b: "\<exists>w'. run (map UpdateContent ds) w = Some w' \<and> length (timers w') = 1 \<and>
                html w' = html w \<and> currentDocument w' = Some (last ds) \<and>
                (\<forall>hs w''. run (map TimerExpires hs) w' = Some w'' \<longrightarrow> length hs \<le> 1)"
      if "ds \<noteq> []" for ds
    proof -
      from burst_state [OF ok m that] obtain w' where
        w': "run (map UpdateContent ds) w = Some w'" "length (timers w') = 1"
          "html w' = html w" "currentDocument w' = Some (last ds)"
        by blast
      have "length hs \<le> 1" if "run (map TimerExpires hs) w' = Some w''" for hs w''
        using expiries_bounded [OF that] w'(2) by simp
      with w' show ?thesis by blast
    qed
    note c p b
  }
  with one show ?thesis by blast
qed

lemma reachable_createOrShow: "timers host = [] \<Longrightarrow> reachable (createOrShow document host)"
proof -
  assume "timers host = []"
  then have "initial (createOrShow document host)" unfolding initial_def by blast
  then show ?thesis by (rule reach_initial)
qed

lemma reachable_createOrShowSingle:
  "timers host = [] \<Longrightarrow> reachable (createOrShowSingle document lineNumber host)"
proof -
  assume "timers host = []"
  then have "initial (createOrShowSingle document lineNumber host)" unfolding initial_def by blast
  then show ?thesis by (rule reach_initial)
qed

lemma createOrShow_fields:
  "mode (createOrShow document host) = mode_all"
  "singleLine (createOrShow document host) = None"
  "timers (createOrShow document host) = timers host"
  "nextHandle (createOrShow document host) = nextHandle host"
  "config (createOrShow document host) = config host"
  "updateTimeout (createOrShow document host) = None"
  by (simp_all add: createOrShow_def new_panel_def render_frame)

lemma createOrShowSingle_fields:
  "mode (createOrShowSingle document lineNumber host) = mode_single"
  "singleLine (createOrShowSingle document lineNumber host) = Some lineNumber"
  "timers (createOrShowSingle document lineNumber host) = timers host"
  "nextHandle (createOrShowSingle document lineNumber host) = nextHandle host"
  "config (createOrShowSingle document lineNumber host) = config host"
  "updateTimeout (createOrShowSingle document lineNumber host) = None"
  by (simp_all add: createOrShowSingle_def new_panel_def render_frame)

theorem updateContent_debounced_witness:
  "reachable (createOrShow example_document example_host) \<and>
   mode (createOrShow example_document example_host) = mode_all \<and>
   length (timers (createOrShow example_document example_host)) \<le> 1 \<and>
   timers (updateContent example_document (createOrShow example_document example_host)) = [(0, 500)] \<and>
   (\<exists>w'. run (map UpdateContent [example_document, example_document, example_document])
            (createOrShow example_document example_host) = Some w' \<and>
         length (timers w') = 1 \<and>
         html w' = html (createOrShow example_document example_host) \<and>
         run (map TimerExpires [2]) w' \<noteq> None \<and>
         run (map TimerExpires [2, 2]) w' = None)"
proof -
  let ?w = "createOrShow example_document example_host"
  let ?ds = "[example_document, example_document, example_document]"
  have r: "reachable ?w"
    by (rule reachable_createOrShow) (simp add: example_host_def)
  have m: "mode ?w = mode_all" by (simp add: createOrShow_fields)
  note T = updateContent_debounced [OF r, of example_document]
  note T2 = T [THEN conjunct2, THEN mp, OF m]
  have one: "length (timers ?w) \<le> 1" by (rule T [THEN conjunct1])
  have p: "timers (updateContent example_document ?w)
              = [(nextHandle ?w, config_get (cfg_refreshDelay (config ?w)) 500)]"
    by (rule T2 [THEN conjunct2, THEN conjunct1])
  have "?ds \<noteq> []" by simp
  from T2 [THEN conjunct2, THEN conjunct2, THEN spec, THEN mp, OF this]
  obtain w' where w': "run (map UpdateContent ?ds) ?w = Some w'" "length (timers w') = 1"
    "html w' = html ?w"
    "\<And>hs w''. run (map TimerExpires hs) w' = Some w'' \<Longrightarrow> length hs \<le> 1"
    by blast
  have t: "timers w' = [(2, 500)]"
    using w'(1) m
    by (auto simp: updateContent_all createOrShow_fields example_host_def config_get_def
          numeral_2_eq_2)
  have "run (map TimerExpires [2]) w' \<noteq> None"
    by (simp add: timer_expires_def t)
  moreover have "run (map TimerExpires [2, 2]) w' = None"
  proof (cases "run (map TimerExpires [2, 2]) w'")
    case (Some w'')
    from w'(4) [OF this] show ?thesis by simp
  qed simp
  moreover have "timers (updateContent example_document ?w) = [(0, 500)]"
    using p by (simp add: createOrShow_fields example_host_def config_get_def)
  ultimately show ?thesis using r m one w' by blast
qed

section \<open>The mode of a panel\<close>

text \<open>
  Claim C5. In every state a panel can reach, the mode is exactly one of the two, and a
  panel in single-diagram mode has a line; \<open>_setMode\<close> stores its arguments, switching
  to all-diagrams mode clears the line, switching to single-diagram mode stores it; and
  \<open>_render\<close> calls the single-diagram renderer exactly when the mode is single and the
  line is defined.
\<close>

theorem mode_state_machine:
  assumes "reachable w"
  shows "(mode w = mode_all) \<noteq> (mode w = mode_single) \<and>
    (mode w = mode_single \<longrightarrow> singleLine w \<noteq> None) \<and>
    mode (setMode m line w) = m \<and> singleLine (setMode m line w) = line \<and>
    mode (switchToAllMode document w) = mode_all \<and>
    singleLine (switchToAllMode document w) = None \<and>
    mode (switchToSingleMode document lineNumber w) = mode_single \<and>
    singleLine (switchToSingleMode document lineNumber w) = Some lineNumber \<and>
    render overrideTheme w =
      (if mode w = mode_single \<and> singleLine w \<noteq> None
       then renderSingle (the (singleLine w)) overrideTheme w
       else renderAll overrideTheme w)"
proof -
  from assms have "mode_ok w" by (simp add: reachable_ok)
  then have "mode w = mode_single \<longrightarrow> singleLine w \<noteq> None" by (simp add: mode_ok_def)
  moreover have "(mode w = mode_all) \<noteq> (mode w = mode_single)" by (cases "mode w") simp_all
  moreover have "mode (setMode m line w) = m \<and> singleLine (setMode m line w) = line"
    by (simp add: setMode_def)
  moreover have "mode (switchToAllMode document w) = mode_all \<and>
    singleLine (switchToAllMode document w) = None"
    by (simp add: switchToAllMode_def setMode_def render_frame)
  moreover have "mode (switchToSingleMode document lineNumber w) = mode_single \<and>
    singleLine (switchToSingleMode document lineNumber w) = Some lineNumber"
    by (simp add: switchToSingleMode_def setMode_def renderSingle_frame)
  moreover have "render overrideTheme w =
      (if mode w = mode_single \<and> singleLine w \<noteq> None
       then renderSingle (the (singleLine w)) overrideTheme w
       else renderAll overrideTheme w)"
    by (cases "mode w") (auto simp: render_def split: option.splits)
  ultimately show ?thesis by blast
qed

theorem mode_state_machine_witness:
  "reachable (createOrShowSingle example_document 2 example_host) \<and>
   mode (createOrShowSingle example_document 2 example_host) = mode_single \<and>
   singleLine (createOrShowSingle example_document 2 example_host) = Some 2 \<and>
   render None (createOrShowSingle example_document 2 example_host) =
     renderSingle 2 None (createOrShowSingle example_document 2 example_host) \<and>
   mode (switchToAllMode example_document (createOrShowSingle example_document 2 example_host)) = mode_all \<and>
   singleLine (switchToAllMode example_document (createOrShowSingle example_document 2 example_host)) = None"
proof -
  have r: "reachable (createOrShowSingle example_document 2 example_host)"
    by (rule reachable_createOrShowSingle) (simp add: example_host_def)
  from mode_state_machine [OF r, of mode_all None example_document 2 None] r
  show ?thesis by (simp add: createOrShowSingle_fields)
qed

section \<open>Edits in single-diagram mode\<close>

text \<open>
  Claim C10. In single-diagram mode \<open>updateContent\<close> stores the document and changes
  nothing else: no timer, no page. In all-diagrams mode it schedules a timer.
\<close>

theorem single_mode_ignores_edits:
  "(mode w = mode_single \<longrightarrow>
      updateContent document w = w\<lparr>currentDocument := Some document\<rparr>) \<and>
   (mode w = mode_all \<longrightarrow>
      (nextHandle w, config_get (cfg_refreshDelay (config w)) 500)
        \<in> set (timers (updateContent document w)))"
  by (auto simp: updateContent_single updateContent_all)

theorem single_mode_ignores_edits_witness:
  "mode (createOrShowSingle example_document 2 example_host) = mode_single \<and>
   updateContent example_document (createOrShowSingle example_document 2 example_host)
     = (createOrShowSingle example_document 2 example_host)\<lparr>currentDocument := Some example_document\<rparr> \<and>
   timers (updateContent example_document (createOrShowSingle example_document 2 example_host)) = [] \<and>
   mode (createOrShow example_document example_host) = mode_all \<and>
   (0, 500) \<in> set (timers (updateContent example_document (createOrShow example_document example_host)))"
  using single_mode_ignores_edits [of "createOrShowSingle example_document 2 example_host" example_document]
    single_mode_ignores_edits [of "createOrShow example_document example_host" example_document]
  by (simp add: createOrShowSingle_fields createOrShow_fields example_host_def config_get_def)


section \<open>Export\<close>

text \<open>
  Claim C7. \<open>_handleExportDiagram\<close> opens one save dialog, whose default name is
  \<open>mermaid-diagram-{index+1}.{format}\<close> and whose filters are those of the format
  (svg; png; jpg and jpeg). When the dialog is cancelled no file is written and no
  message is shown. When the write throws, the error message is shown and no
  information message is.
\<close>

theorem export_dialog_and_failure:
  "dialogs (handleExportDiagram data format index dialog write_error) =
     [(''mermaid-diagram-'' @ show_int (index + 1) @ ''.'' @ format, export_filters format)] \<and>
   export_filters ''svg'' = [(''SVG Image'', [''svg''])] \<and>
   export_filters ''png'' = [(''PNG Image'', [''png''])] \<and>
   export_filters ''jpg'' = [(''JPEG Image'', [''jpg'', ''jpeg''])] \<and>
   (dialog = None \<longrightarrow>
      writes (handleExportDiagram data format index dialog write_error) = [] \<and>
      information_messages (handleExportDiagram data format index dialog write_error) = [] \<and>
      error_messages (handleExportDiagram data format index dialog write_error) = []) \<and>
   (\<forall>fsPath error. dialog = Some fsPath \<and> write_error = Some error \<longrightarrow>
      error_messages (handleExportDiagram data format index dialog write_error)
        = [''Failed to export diagram: '' @ error] \<and>
      information_messages (handleExportDiagram data format index dialog write_error) = []) \<and>
   (\<forall>fsPath. dialog = Some fsPath \<and> write_error = None \<longrightarrow>
      writes (handleExportDiagram data format index dialog write_error) = [(fsPath, data)] \<and>
      information_messages (handleExportDiagram data format index dialog write_error)
        = [''Diagram exported to '' @ fsPath] \<and>
      error_messages (handleExportDiagram data format index dialog write_error) = [])"
  by (cases dialog; cases write_error)
     (simp_all add: handleExportDiagram_def dialogs_def writes_def information_messages_def
        error_messages_def export_filters_def)

lemma show_int_1: "show_int 1 = ''1''"
  by (simp add: show_int_def show_nat.simps)

lemma show_int_12: "show_int 12 = ''12''"
  by (simp add: show_int_def show_nat.simps)

theorem export_dialog_and_failure_witness:
  "dialogs (handleExportDiagram ''PHN2Zz48L3N2Zz4='' ''svg'' 0 None None)
     = [(''mermaid-diagram-1.svg'', [(''SVG Image'', [''svg''])])] \<and>
   writes (handleExportDiagram ''PHN2Zz48L3N2Zz4='' ''svg'' 0 None None) = [] \<and>
   information_messages (handleExportDiagram ''PHN2Zz48L3N2Zz4='' ''svg'' 0 None None) = [] \<and>
   error_messages (handleExportDiagram ''PHN2Zz48L3N2Zz4='' ''svg'' 0 None None) = [] \<and>
   dialogs (handleExportDiagram ''PHN2Zz48L3N2Zz4='' ''jpg'' 11 (Some ''/tmp/d.jpg'') (Some ''EACCES''))
     = [(''mermaid-diagram-12.jpg'', [(''JPEG Image'', [''jpg'', ''jpeg''])])] \<and>
   error_messages (handleExportDiagram ''PHN2Zz48L3N2Zz4='' ''jpg'' 11 (Some ''/tmp/d.jpg'') (Some ''EACCES''))
     = [''Failed to export diagram: EACCES''] \<and>
   information_messages (handleExportDiagram ''PHN2Zz48L3N2Zz4='' ''jpg'' 11 (Some ''/tmp/d.jpg'') (Some ''EACCES'')) = []"
  using export_dialog_and_failure [of "''PHN2Zz48L3N2Zz4=''" "''svg''" 0 None None]
    export_dialog_and_failure [of "''PHN2Zz48L3N2Zz4=''" "''jpg''" 11 "Some ''/tmp/d.jpg''" "Some ''EACCES''"]
  by (simp add: show_int_1 show_int_12 export_filters_def)


section \<open>The matcher, step by step\<close>

lemma units_distinct:
  "LF \<noteq> CR" "CR \<noteq> LF" "LF \<noteq> BACKTICK" "BACKTICK \<noteq> LF" "CR \<noteq> BACKTICK" "BACKTICK \<noteq> CR"
  by (simp_all add: LF_def CR_def BACKTICK_def)

lemma hspace_simps: "\<not> hspace LF" "\<not> hspace CR" "\<not> hspace BACKTICK"
  by (simp_all add: hspace_def isWhiteSpace_def LF_def CR_def BACKTICK_def)

lemma isWhiteSpace_simps: "isWhiteSpace LF" "isWhiteSpace CR" "\<not> isWhiteSpace BACKTICK"
  by (simp_all add: isWhiteSpace_def LF_def CR_def BACKTICK_def)

lemma lit_mem: "r \<in> set (lit p s) \<longleftrightarrow> s = p @ r"
proof
  assume "r \<in> set (lit p s)"
  then have "take (length p) s = p" and "r = drop (length p) s"
    by (auto simp: lit_def split: if_splits)
  then show "s = p @ r" by (metis append_take_drop_id)
next
  assume "s = p @ r"
  then show "r \<in> set (lit p s)" by (simp add: lit_def)
qed

lemma lit_length: "length (lit p s) \<le> Suc 0"
  by (simp add: lit_def)

lemma star_mem: "r \<in> set (star P s) \<longleftrightarrow> (\<exists>ws. s = ws @ r \<and> (\<forall>c \<in> set ws. P c))"
proof (induction s)
  case Nil
  then show ?case by auto
next
  case (Cons c cs)
  show ?case
  proof (cases "P c")
    case True
    have "(\<exists>ws. c # cs = ws @ r \<and> (\<forall>c \<in> set ws. P c)) \<longleftrightarrow>
          r = c # cs \<or> (\<exists>ws. cs = ws @ r \<and> (\<forall>c \<in> set ws. P c))"
      using True by (auto simp: Cons_eq_append_conv)
    with True Cons.IH show ?thesis by auto
  next
    case False
    have "(\<exists>ws. c # cs = ws @ r \<and> (\<forall>c \<in> set ws. P c)) \<longleftrightarrow> r = c # cs"
      using False by (auto simp: Cons_eq_append_conv)
    with False show ?thesis by auto
  qed
qed

lemma newline_eq:
  "newline s =
     (case s of
        [] \<Rightarrow> []
      | c # cs \<Rightarrow>
          if c = LF then [cs]
          else if c = CR then (case cs of [] \<Rightarrow> [] | d # ds \<Rightarrow> if d = LF then [ds] else [])
          else [])"
proof (cases s)
  case Nil
  then show ?thesis by (simp add: newline_def seq_def opt_def lit_def)
next
  case (Cons c cs)
  then show ?thesis
    by (cases cs) (auto simp: newline_def seq_def opt_def lit_def units_distinct)
qed

lemma newline_mem: "r \<in> set (newline s) \<longleftrightarrow> s = LF # r \<or> s = CR # LF # r"
proof -
  have "r \<in> set (newline s) \<longleftrightarrow> (\<exists>t \<in> set (opt (lit [CR]) s). r \<in> set (lit [LF] t))"
    by (simp only: newline_def seq_mem)
  also have "\<dots> \<longleftrightarrow> (\<exists>t. (s = [CR] @ t \<or> t = s) \<and> t = [LF] @ r)"
    by (simp only: opt_mem lit_mem Bex_def)
  also have "\<dots> \<longleftrightarrow> s = LF # r \<or> s = CR # LF # r"
    by auto
  finally show ?thesis .
qed

lemma newline_length: "length (newline s) \<le> Suc 0"
  by (simp add: newline_eq split: list.splits)

lemma newline_hspace: "hspace c \<Longrightarrow> newline (c # cs) = []"
  using hspace_simps by (auto simp: newline_eq)

lemma star_newline: "concat (map newline (star hspace s)) = newline (dropWhile hspace s)"
  by (induction s) (simp_all add: newline_hspace)

lemma opener_eq:
  "opener s =
     (if take (length FENCE_MERMAID) s = FENCE_MERMAID
      then newline (dropWhile hspace (drop (length FENCE_MERMAID) s)) else [])"
  by (simp add: opener_def seq_def lit_def star_newline)

lemma opener_length: "length (opener s) \<le> Suc 0"
  by (simp add: opener_eq newline_length)

lemma closer_eq:
  "closer s =
     (case s of
        [] \<Rightarrow> []
      | c # cs \<Rightarrow>
          if c = BACKTICK then lit FENCE s
          else concat (map (lit FENCE) (newline s)))"
proof (cases s)
  case Nil
  then show ?thesis by (simp add: closer_def seq_def opt_def newline_eq lit_def FENCE_def)
next
  case (Cons c cs)
  show ?thesis
  proof (cases "c = BACKTICK")
    case True
    with Cons have "newline s = []" by (simp add: newline_eq units_distinct)
    with Cons True show ?thesis by (simp add: closer_def seq_def opt_def)
  next
    case False
    with Cons have "lit FENCE s = []" by (simp add: lit_def FENCE_def)
    with Cons False show ?thesis by (simp add: closer_def seq_def opt_def)
  qed
qed

lemma closer_length: "length (closer s) \<le> Suc 0"
proof -
  have "length (concat (map (lit FENCE) (newline s))) \<le> Suc 0"
    using newline_length [of s] lit_length
    by (cases "newline s") (auto simp: le_Suc_eq)
  then show ?thesis
    by (simp add: closer_eq lit_length split: list.splits)
qed

lemma hspace_iff: "hspace c \<longleftrightarrow> isWhiteSpace c \<and> c \<noteq> LF \<and> c \<noteq> CR"
  unfolding hspace_def by blast

lemma opener_mem: "r \<in> set (opener s) \<longleftrightarrow> (\<exists>f. opening_fence f \<and> s = f @ r)"
proof -
  have "r \<in> set (opener s) \<longleftrightarrow>
        (\<exists>t. s = FENCE_MERMAID @ t \<and> (\<exists>u. (\<exists>ws. t = ws @ u \<and> (\<forall>c \<in> set ws. hspace c)) \<and>
              (u = LF # r \<or> u = CR # LF # r)))"
    by (simp only: opener_def seq_mem lit_mem star_mem newline_mem Bex_def)
  also have "\<dots> \<longleftrightarrow> (\<exists>f. opening_fence f \<and> s = f @ r)"
  proof
    assume "\<exists>t. s = FENCE_MERMAID @ t \<and> (\<exists>u. (\<exists>ws. t = ws @ u \<and> (\<forall>c \<in> set ws. hspace c)) \<and>
              (u = LF # r \<or> u = CR # LF # r))"
    then obtain ws u where ws: "s = FENCE_MERMAID @ ws @ u" "\<forall>c \<in> set ws. hspace c"
      and u: "u = LF # r \<or> u = CR # LF # r"
      by blast
    from u show "\<exists>f. opening_fence f \<and> s = f @ r"
    proof
      assume "u = LF # r"
      with ws have "opening_fence (FENCE_MERMAID @ ws @ [LF]) \<and> s = (FENCE_MERMAID @ ws @ [LF]) @ r"
        unfolding opening_fence_def hspace_iff by auto
      then show ?thesis by (rule exI)
    next
      assume "u = CR # LF # r"
      with ws have "opening_fence (FENCE_MERMAID @ ws @ [CR, LF]) \<and> s = (FENCE_MERMAID @ ws @ [CR, LF]) @ r"
        unfolding opening_fence_def hspace_iff by auto
      then show ?thesis by (rule exI)
    qed
  next
    assume "\<exists>f. opening_fence f \<and> s = f @ r"
    then obtain f ws where "s = f @ r" and ws: "\<forall>c \<in> set ws. hspace c"
      and "f = FENCE_MERMAID @ ws @ [LF] \<or> f = FENCE_MERMAID @ ws @ [CR, LF]"
      unfolding opening_fence_def hspace_iff by blast
    then have "s = FENCE_MERMAID @ ws @ LF # r \<or> s = FENCE_MERMAID @ ws @ CR # LF # r"
      by auto
    then have "s = FENCE_MERMAID @ (ws @ LF # r) \<and> (ws @ LF # r = ws @ LF # r \<and> (\<forall>c \<in> set ws. hspace c))
        \<or> s = FENCE_MERMAID @ (ws @ CR # LF # r) \<and> (ws @ CR # LF # r = ws @ CR # LF # r \<and> (\<forall>c \<in> set ws. hspace c))"
      using ws by simp
    then show "\<exists>t. s = FENCE_MERMAID @ t \<and> (\<exists>u. (\<exists>ws. t = ws @ u \<and> (\<forall>c \<in> set ws. hspace c)) \<and>
              (u = LF # r \<or> u = CR # LF # r))"
      by blast
  qed
  finally show ?thesis .
qed

lemma closer_mem: "r \<in> set (closer s) \<longleftrightarrow> (\<exists>g. closing_fence g \<and> s = g @ r)"
proof -
  have "r \<in> set (closer s) \<longleftrightarrow>
        (\<exists>t. ((s = LF # t \<or> s = CR # LF # t) \<or> t = s) \<and> t = FENCE @ r)"
    by (simp only: closer_def seq_mem opt_mem lit_mem newline_mem Bex_def)
  also have "\<dots> \<longleftrightarrow> s = FENCE @ r \<or> s = LF # FENCE @ r \<or> s = CR # LF # FENCE @ r"
    by blast
  also have "\<dots> \<longleftrightarrow> (\<exists>g. closing_fence g \<and> s = g @ r)"
  proof
    assume "s = FENCE @ r \<or> s = LF # FENCE @ r \<or> s = CR # LF # FENCE @ r"
    then have "(closing_fence FENCE \<and> s = FENCE @ r) \<or>
      (closing_fence ([LF] @ FENCE) \<and> s = ([LF] @ FENCE) @ r) \<or>
      (closing_fence ([CR, LF] @ FENCE) \<and> s = ([CR, LF] @ FENCE) @ r)"
      unfolding closing_fence_def by simp
    then show "\<exists>g. closing_fence g \<and> s = g @ r" by blast
  next
    assume "\<exists>g. closing_fence g \<and> s = g @ r"
    then obtain g where "g = FENCE \<or> g = [LF] @ FENCE \<or> g = [CR, LF] @ FENCE" and "s = g @ r"
      unfolding closing_fence_def by blast
    then show "s = FENCE @ r \<or> s = LF # FENCE @ r \<or> s = CR # LF # FENCE @ r"
      by auto
  qed
  finally show ?thesis .
qed

lemma at_most_one:
  assumes "length xs \<le> Suc 0"
  shows "xs = [x] \<longleftrightarrow> x \<in> set xs" and "xs = [] \<longleftrightarrow> (\<forall>x. x \<notin> set xs)"
  using assms by (cases xs; cases "tl xs"; auto)+

lemma first_triple:
  "(case concat (map (\<lambda>s2. map (\<lambda>s3. (s1, s2, s3)) (closer s2)) (lazy_star any_unit s)) of
      [] \<Rightarrow> None | x # _ \<Rightarrow> Some x)
   = map_option (\<lambda>(s2, s3). (s1, s2, s3)) (first_close s)"
proof (induction s)
  case Nil
  show ?case by (cases "closer []") simp_all
next
  case (Cons c cs)
  show ?case
  proof (cases "closer (c # cs)")
    case Nil
    with Cons.IH show ?thesis by (simp add: any_unit_def)
  next
    case (Cons r rs)
    then show ?thesis by (simp add: any_unit_def)
  qed
qed

lemma match_here_eq:
  "match_here s =
     (case opener s of
        [] \<Rightarrow> None
      | s1 # _ \<Rightarrow>
          (case first_close s1 of
             None \<Rightarrow> None
           | Some (s2, s3) \<Rightarrow>
               Some \<lparr>matched = take (length s - length s3) s,
                     group1 = take (length s1 - length s2) s1\<rparr>))"
proof (cases "opener s")
  case Nil
  then show ?thesis by (simp add: match_here_def)
next
  case (Cons s1 rest)
  with opener_length [of s] have o: "opener s = [s1]" by simp
  let ?L = "concat (map (\<lambda>s2. map (\<lambda>s3. (s1, s2, s3)) (closer s2)) (lazy_star any_unit s1))"
  have m: "match_here s =
     (case ?L of
        [] \<Rightarrow> None
      | (s1, s2, s3) # _ \<Rightarrow> Some \<lparr>matched = take (length s - length s3) s,
                     group1 = take (length s1 - length s2) s1\<rparr>)"
    by (simp add: match_here_def o)
  have ft: "(case ?L of [] \<Rightarrow> None | x # _ \<Rightarrow> Some x)
              = map_option (\<lambda>(s2, s3). (s1, s2, s3)) (first_close s1)"
    by (rule first_triple)
  show ?thesis
  proof (cases ?L)
    case Nil
    from ft have "first_close s1 = None" unfolding Nil by simp
    then show ?thesis unfolding m Nil o by simp
  next
    case (Cons x xs)
    from ft have "map_option (\<lambda>(s2, s3). (s1, s2, s3)) (first_close s1) = Some x"
      unfolding Cons by simp
    then obtain s2 s3 where "first_close s1 = Some (s2, s3)" and "x = (s1, s2, s3)"
      by auto
    then show ?thesis unfolding m Cons o by simp
  qed
qed

lemma first_close_SomeD:
  "first_close s = Some (s2, s3) \<Longrightarrow>
     \<exists>b. s = b @ s2 \<and> s3 \<in> set (closer s2) \<and> (\<forall>k < length b. closer (drop k s) = [])"
proof (induction s)
  case Nil
  then have "s2 = []" and "s3 \<in> set (closer [])"
    by (auto split: list.splits)
  then show ?case by simp
next
  case (Cons c cs)
  show ?case
  proof (cases "closer (c # cs)")
    case Nil
    with Cons.prems have "first_close cs = Some (s2, s3)" by simp
    from Cons.IH [OF this] obtain b where
      b: "cs = b @ s2" "s3 \<in> set (closer s2)" "\<forall>k < length b. closer (drop k cs) = []"
      by blast
    have "\<forall>k < length (c # b). closer (drop k (c # cs)) = []"
    proof (intro allI impI)
      fix k assume "k < length (c # b)"
      then show "closer (drop k (c # cs)) = []"
        using Nil b(3) by (cases k) simp_all
    qed
    with b(1,2) have "c # cs = (c # b) @ s2 \<and> s3 \<in> set (closer s2) \<and>
        (\<forall>k < length (c # b). closer (drop k (c # cs)) = [])"
      by simp
    then show ?thesis by (rule exI)
  next
    case (Cons r rs)
    with Cons.prems have "s2 = c # cs" and "s3 = r" by simp_all
    with Cons show ?thesis by simp
  qed
qed

lemma first_close_SomeI:
  "closer s2 = s3 # rs \<Longrightarrow> (\<forall>k < length b. closer (drop k (b @ s2)) = []) \<Longrightarrow>
     first_close (b @ s2) = Some (s2, s3)"
proof (induction b)
  case Nil
  then show ?case by (cases s2) simp_all
next
  case (Cons x b)
  from Cons.prems(2) have "closer (drop 0 ((x # b) @ s2)) = []" by blast
  then have c: "closer (x # b @ s2) = []" by simp
  have "\<forall>k < length b. closer (drop k (b @ s2)) = []"
  proof (intro allI impI)
    fix k assume "k < length b"
    then have "Suc k < length (x # b)" by simp
    with Cons.prems(2) have "closer (drop (Suc k) ((x # b) @ s2)) = []" by blast
    then show "closer (drop k (b @ s2)) = []" by simp
  qed
  from Cons.IH [OF Cons.prems(1) this] c show ?case by simp
qed

lemma closer_empty_iff:
  "closer s = [] \<longleftrightarrow> \<not> (\<exists>g r. closing_fence g \<and> s = g @ r)"
  using at_most_one(2) [OF closer_length, of s] closer_mem by blast

lemma block_here_match:
  assumes "block_here s b whole"
  shows "match_here s = Some \<lparr>matched = whole, group1 = b\<rparr>"
proof -
  from assms obtain f g rest where
    s: "s = f @ b @ g @ rest" and w: "whole = f @ b @ g"
    and f: "opening_fence f" and g: "closing_fence g"
    and mini: "\<forall>k < length b. \<not> (\<exists>g' r. closing_fence g' \<and> drop k (b @ g @ rest) = g' @ r)"
    unfolding block_here_def by blast
  from f s have "b @ g @ rest \<in> set (opener s)" using opener_mem by blast
  with at_most_one(1) [OF opener_length] have o: "opener s = [b @ g @ rest]" by blast
  from g have "rest \<in> set (closer (g @ rest))" using closer_mem by blast
  with at_most_one(1) [OF closer_length] have c: "closer (g @ rest) = [rest]" by blast
  from mini have "\<forall>k < length b. closer (drop k (b @ g @ rest)) = []"
    by (simp only: closer_empty_iff) 
  from first_close_SomeI [OF c this]
  have fc: "first_close (b @ g @ rest) = Some (g @ rest, rest)" .
  have "match_here s = Some \<lparr>matched = take (length s - length rest) s,
      group1 = take (length (b @ g @ rest) - length (g @ rest)) (b @ g @ rest)\<rparr>"
    by (simp add: match_here_eq o fc)
  moreover have "take (length s - length rest) s = whole" by (simp add: s w)
  ultimately show ?thesis by simp
qed

lemma match_block_here:
  assumes "match_here s = Some m"
  shows "block_here s (group1 m) (matched m)"
proof -
  from assms obtain s1 rs s2 s3 where o: "opener s = s1 # rs"
    and fc: "first_close s1 = Some (s2, s3)"
    and m: "m = \<lparr>matched = take (length s - length s3) s,
                  group1 = take (length s1 - length s2) s1\<rparr>"
    by (auto simp: match_here_eq split: list.splits option.splits)
  from o have "s1 \<in> set (opener s)" by simp
  then obtain f where f: "opening_fence f" "s = f @ s1" using opener_mem by blast
  from first_close_SomeD [OF fc] obtain b where
    b: "s1 = b @ s2" "s3 \<in> set (closer s2)" "\<forall>k < length b. closer (drop k s1) = []"
    by blast
  from b(2) obtain g where g: "closing_fence g" "s2 = g @ s3" using closer_mem by blast
  have "matched m = f @ b @ g" and "group1 m = b"
    by (simp_all add: m f(2) b(1) g(2))
  moreover have "\<forall>k < length b. \<not> (\<exists>g' r. closing_fence g' \<and> drop k (b @ g @ s3) = g' @ r)"
    using b(3) by (simp only: closer_empty_iff b(1) g(2)) 
  ultimately show ?thesis
    unfolding block_here_def using f g b(1) by blast
qed

lemma match_here_Nil: "match_here [] = None"
  by (simp add: match_here_eq opener_eq FENCE_MERMAID_def FENCE_def)

lemma block_at_iff:
  "block_at tx i b n \<longleftrightarrow>
     i \<le> length tx \<and> (\<exists>m. match_here (drop i tx) = Some m \<and> b = group1 m \<and> n = i + length (matched m))"
proof
  assume "block_at tx i b n"
  then obtain whole where "i \<le> length tx" "block_here (drop i tx) b whole" "n = i + length whole"
    unfolding block_at_def by blast
  with block_here_match [of "drop i tx" b whole]
  show "i \<le> length tx \<and> (\<exists>m. match_here (drop i tx) = Some m \<and> b = group1 m \<and> n = i + length (matched m))"
    by simp
next
  assume "i \<le> length tx \<and> (\<exists>m. match_here (drop i tx) = Some m \<and> b = group1 m \<and> n = i + length (matched m))"
  then obtain m where "i \<le> length tx" "match_here (drop i tx) = Some m" "b = group1 m"
    "n = i + length (matched m)"
    by blast
  with match_block_here [of "drop i tx" m] show "block_at tx i b n"
    unfolding block_at_def by blast
qed

lemma no_block_iff:
  "(\<forall>b n. \<not> block_at tx i b n) \<longleftrightarrow> match_here (drop i tx) = None"
proof (cases "i \<le> length tx")
  case True
  then show ?thesis by (cases "match_here (drop i tx)") (auto simp: block_at_iff)
next
  case False
  then show ?thesis by (simp add: block_at_iff match_here_Nil)
qed

lemma regex_exec_None:
  "regex_exec tx i = None \<longleftrightarrow> (\<forall>k \<ge> i. match_here (drop k tx) = None)"
proof (induction tx i rule: regex_exec.induct)
  case (1 tx i)
  show ?case
  proof (cases "length tx < i")
    case True
    then show ?thesis by (simp add: regex_exec.simps [of tx i] match_here_Nil)
  next
    case False
    show ?thesis
    proof (cases "match_here (drop i tx)")
      case None
      with False "1.IH" have "regex_exec tx i = None \<longleftrightarrow> (\<forall>k \<ge> Suc i. match_here (drop k tx) = None)"
        by (simp add: regex_exec.simps [of tx i])
      also have "\<dots> \<longleftrightarrow> (\<forall>k \<ge> i. match_here (drop k tx) = None)"
        using None by (metis Suc_leI le_neq_implies_less Suc_leD)
      finally show ?thesis .
    next
      case (Some m)
      with False show ?thesis by (auto simp: regex_exec.simps [of tx i])
    qed
  qed
qed

lemma regex_exec_Some:
  "regex_exec tx i = Some (j, m) \<longleftrightarrow>
     i \<le> j \<and> j \<le> length tx \<and> match_here (drop j tx) = Some m \<and>
     (\<forall>k. i \<le> k \<and> k < j \<longrightarrow> match_here (drop k tx) = None)"
proof (induction tx i rule: regex_exec.induct)
  case (1 tx i)
  show ?case
  proof (cases "length tx < i")
    case True
    then show ?thesis by (auto simp: regex_exec.simps [of tx i])
  next
    case False
    show ?thesis
    proof (cases "match_here (drop i tx)")
      case None
      with False "1.IH" have "regex_exec tx i = Some (j, m) \<longleftrightarrow>
          Suc i \<le> j \<and> j \<le> length tx \<and> match_here (drop j tx) = Some m \<and>
          (\<forall>k. Suc i \<le> k \<and> k < j \<longrightarrow> match_here (drop k tx) = None)"
        by (simp add: regex_exec.simps [of tx i])
      also have "\<dots> \<longleftrightarrow> i \<le> j \<and> j \<le> length tx \<and> match_here (drop j tx) = Some m \<and>
          (\<forall>k. i \<le> k \<and> k < j \<longrightarrow> match_here (drop k tx) = None)"
        using None
        by (metis Suc_leI le_neq_implies_less Suc_leD option.distinct(1))
      finally show ?thesis .
    next
      case (Some m')
      have "regex_exec tx i = Some (i, m')"
        using False Some by (simp add: regex_exec.simps [of tx i])
      moreover have "(i \<le> j \<and> j \<le> length tx \<and> match_here (drop j tx) = Some m \<and>
          (\<forall>k. i \<le> k \<and> k < j \<longrightarrow> match_here (drop k tx) = None)) \<longleftrightarrow> j = i \<and> m = m'"
      proof
        assume a: "i \<le> j \<and> j \<le> length tx \<and> match_here (drop j tx) = Some m \<and>
          (\<forall>k. i \<le> k \<and> k < j \<longrightarrow> match_here (drop k tx) = None)"
        have "\<not> i < j"
        proof
          assume "i < j"
          with a have "match_here (drop i tx) = None" by blast
          with Some show False by simp
        qed
        with a have "j = i" by simp
        with a Some show "j = i \<and> m = m'" by simp
      next
        assume "j = i \<and> m = m'"
        with False Some show "i \<le> j \<and> j \<le> length tx \<and> match_here (drop j tx) = Some m \<and>
          (\<forall>k. i \<le> k \<and> k < j \<longrightarrow> match_here (drop k tx) = None)"
          by auto
      qed
      ultimately show ?thesis by auto
    qed
  qed
qed

section \<open>The blocks of a document\<close>

lemma blocks_matchAll: "blocks_from tx i (map to_block (matchAll tx i))"
proof (induction tx i rule: matchAll.induct)
  case (1 tx i)
  show ?case
  proof (cases "regex_exec tx i")
    case None
    then have "matchAll tx i = []" by (simp add: matchAll.simps [of tx i])
    moreover from None have "\<And>k b n. i \<le> k \<Longrightarrow> \<not> block_at tx k b n"
      using regex_exec_None [of tx i] no_block_iff [of tx] by blast
    ultimately show ?thesis by (simp add: blocks_none)
  next
    case (Some p)
    obtain j m where p: "p = (j, m)" by (cases p)
    with Some have e: "regex_exec tx i = Some (j, m)" by simp
    then have ma: "matchAll tx i = (j, m) # matchAll tx (j + length (matched m))"
      by (simp add: matchAll.simps [of tx i])
    from "1.IH" [OF e refl]
    have rest: "blocks_from tx (j + length (matched m)) (map to_block (matchAll tx (j + length (matched m))))" .
    from e [unfolded regex_exec_Some]
    have r: "i \<le> j" "j \<le> length tx" "match_here (drop j tx) = Some m"
      "\<forall>k. i \<le> k \<and> k < j \<longrightarrow> match_here (drop k tx) = None"
      by blast+
    from r(2,3) have b: "block_at tx j (group1 m) (j + length (matched m))"
      by (simp add: block_at_iff)
    from r(4) have n: "\<And>k b' n'. i \<le> k \<Longrightarrow> k < j \<Longrightarrow> \<not> block_at tx k b' n'"
      using no_block_iff [of tx] by blast
    from blocks_first [OF r(1) b n rest] show ?thesis
      by (simp add: ma to_block_def)
  qed
qed

lemma blocks_unique: "blocks_from tx i bs \<Longrightarrow> bs = map to_block (matchAll tx i)"
proof (induction rule: blocks_from.induct)
  case (blocks_none start)
  then have "\<forall>k \<ge> start. match_here (drop k tx) = None"
    using no_block_iff [of tx] by blast
  then have "regex_exec tx start = None" by (simp only: regex_exec_None)
  then show ?case by (simp add: matchAll.simps [of tx start])
next
  case (blocks_first start i b n bs)
  from blocks_first.hyps(2) obtain m where m: "i \<le> length tx" "match_here (drop i tx) = Some m"
    "b = group1 m" "n = i + length (matched m)"
    unfolding block_at_iff by blast
  from blocks_first.hyps(3) have "\<forall>k. start \<le> k \<and> k < i \<longrightarrow> match_here (drop k tx) = None"
    using no_block_iff [of tx] by blast
  with blocks_first.hyps(1) m(1,2) have "regex_exec tx start = Some (i, m)"
    by (simp only: regex_exec_Some)
  then have "matchAll tx start = (i, m) # matchAll tx n"
    by (simp add: matchAll.simps [of tx start] m(4))
  with blocks_first.IH m(3,4) show ?case by (simp add: to_block_def)
qed


lemma example2_matches:
  "map to_block (matchAll (getText example_document2) 0)
     = [(0, utf16 ''A-->B'', 23), (25, [], 40), (41, utf16 ''pie'', 58)]"
  by code_simp

lemma example2_result:
  \<open>JSON_stringify [utf16 ''A-->B'', utf16 ''pie''] = utf16 ''["A-->B","pie"]''\<close>
  by code_simp

lemma example2_trim: "trim (utf16 ''A-->B'') = utf16 ''A-->B''" "trim (utf16 ''pie'') = utf16 ''pie''" "trim [] = []"
  by code_simp+

lemma example2_lines:
  "positionAt_line example_document2 0 = 0" "positionAt_line example_document2 23 = 2"
  "positionAt_line example_document2 25 = 4" "positionAt_line example_document2 40 = 6"
  "positionAt_line example_document2 41 = 7" "positionAt_line example_document2 58 = 8"
  by code_simp+


lemma utf16_nonempty: "utf16 ''A-->B'' \<noteq> []" "utf16 ''pie'' \<noteq> []"
  by (simp_all add: utf16_def)


section \<open>All diagrams of a document\<close>

lemma extractMermaidCode_result:
  "fst (extractMermaidCode document w) =
     (if filter (\<lambda>d. d \<noteq> []) (map (\<lambda>(j, m). trim (group1 m)) (matchAll (getText document) 0)) = []
      then None
      else Some (JSON_stringify
        (filter (\<lambda>d. d \<noteq> []) (map (\<lambda>(j, m). trim (group1 m)) (matchAll (getText document) 0)))))"
  by (simp add: extractMermaidCode_def Let_def)

lemma bodies_to_block:
  "map (\<lambda>(i, b, n). trim b) (map to_block ms) = map (\<lambda>(j, m). trim (group1 m)) ms"
  by (simp add: to_block_def case_prod_beta)



text \<open>
  Claim C1. The blocks of a document are determined by the text. \<open>_extractMermaidCode\<close>
  returns the JSON text of the array of their trimmed bodies, in document order, leaving
  out the bodies that are empty after trimming, and returns null when that array is
  empty: exactly when there is no block or every block has an empty trimmed body.
\<close>

theorem extractMermaidCode_all_blocks:
  "\<exists>bs. blocks_from (getText document) 0 bs \<and>
        (\<forall>bs'. blocks_from (getText document) 0 bs' \<longrightarrow> bs' = bs) \<and>
        fst (extractMermaidCode document w) =
          (if filter (\<lambda>d. d \<noteq> []) (map (\<lambda>(i, b, n). trim b) bs) = [] then None
           else Some (JSON_stringify (filter (\<lambda>d. d \<noteq> []) (map (\<lambda>(i, b, n). trim b) bs)))) \<and>
        (fst (extractMermaidCode document w) = None \<longleftrightarrow> (\<forall>(i, b, n) \<in> set bs. trim b = []))"
proof -
  define bs where "bs = map to_block (matchAll (getText document) 0)"
  have 1: "blocks_from (getText document) 0 bs"
    unfolding bs_def by (rule blocks_matchAll)
  have 2: "\<forall>bs'. blocks_from (getText document) 0 bs' \<longrightarrow> bs' = bs"
    unfolding bs_def using blocks_unique by blast
  have b: "map (\<lambda>(i, b, n). trim b) bs
             = map (\<lambda>(j, m). trim (group1 m)) (matchAll (getText document) 0)"
    unfolding bs_def by (rule bodies_to_block)
  have 3: "fst (extractMermaidCode document w) =
          (if filter (\<lambda>d. d \<noteq> []) (map (\<lambda>(i, b, n). trim b) bs) = [] then None
           else Some (JSON_stringify (filter (\<lambda>d. d \<noteq> []) (map (\<lambda>(i, b, n). trim b) bs))))"
    unfolding b by (rule extractMermaidCode_result)
  have "filter (\<lambda>d. d \<noteq> []) (map (\<lambda>(i, b, n). trim b) bs) = [] \<longleftrightarrow>
        (\<forall>(i, b, n) \<in> set bs. trim b = [])"
    unfolding filter_empty_conv by auto
  with 3 have 4: "fst (extractMermaidCode document w) = None \<longleftrightarrow> (\<forall>(i, b, n) \<in> set bs. trim b = [])"
    by simp
  show ?thesis by (intro exI [of _ bs] conjI 1 2 3 4)
qed

theorem extractMermaidCode_all_blocks_witness:
  \<open>blocks_from (getText example_document2) 0
      [(0, utf16 ''A-->B'', 23), (25, [], 40), (41, utf16 ''pie'', 58)] \<and>
   fst (extractMermaidCode example_document2 example_host) = Some (utf16 ''["A-->B","pie"]'')\<close>
proof -
  have 1: "blocks_from (getText example_document2) 0
      [(0, utf16 ''A-->B'', 23), (25, [], 40), (41, utf16 ''pie'', 58)]"
    using blocks_matchAll [of "getText example_document2" 0] unfolding example2_matches .
  from extractMermaidCode_all_blocks [of example_document2 example_host]
  obtain bs where u: "\<forall>bs'. blocks_from (getText example_document2) 0 bs' \<longrightarrow> bs' = bs"
    and r: "fst (extractMermaidCode example_document2 example_host) =
          (if filter (\<lambda>d. d \<noteq> []) (map (\<lambda>(i, b, n). trim b) bs) = [] then None
           else Some (JSON_stringify (filter (\<lambda>d. d \<noteq> []) (map (\<lambda>(i, b, n). trim b) bs))))"
    by blast
  from u 1 have "bs = [(0, utf16 ''A-->B'', 23), (25, [], 40), (41, utf16 ''pie'', 58)]"
    by blast
  with r have "fst (extractMermaidCode example_document2 example_host)
      = Some (JSON_stringify [utf16 ''A-->B'', utf16 ''pie''])"
    by (simp add: example2_trim utf16_nonempty)
  with 1 show ?thesis by (simp only: example2_result)
qed


section \<open>The diagram at a line\<close>

lemma extractAtLine_loop_matchAll:
  "extractAtLine_loop document lineNumber i =
     (case filter (\<lambda>(j, m). positionAt_line document j \<le> lineNumber \<and>
                     lineNumber \<le> positionAt_line document (j + length (matched m)) \<and>
                     trim (group1 m) \<noteq> [])
             (matchAll (getText document) i) of
        [] \<Rightarrow> None
      | (j, m) # _ \<Rightarrow> Some (JSON_stringify [trim (group1 m)]))"
proof (induction document lineNumber i rule: extractAtLine_loop.induct)
  case (1 document lineNumber i)
  show ?case
  proof (cases "regex_exec (getText document) i")
    case None
    then show ?thesis
      by (simp add: extractAtLine_loop.simps [of document lineNumber i]
            matchAll.simps [of "getText document" i])
  next
    case (Some p)
    obtain j m where p: "p = (j, m)" by (cases p)
    with Some have e: "regex_exec (getText document) i = Some (j, m)" by simp
    show ?thesis
    proof (cases "positionAt_line document j \<le> lineNumber \<and>
                     lineNumber \<le> positionAt_line document (j + length (matched m)) \<and>
                     0 < length (trim (group1 m))")
      case True
      with e show ?thesis
        by (simp add: extractAtLine_loop.simps [of document lineNumber i]
              matchAll.simps [of "getText document" i])
    next
      case False
      define P :: "nat \<times> regex_match \<Rightarrow> bool"
        where "P = (\<lambda>(j, m). positionAt_line document j \<le> lineNumber \<and>
                     lineNumber \<le> positionAt_line document (j + length (matched m)) \<and>
                     trim (group1 m) \<noteq> [])"
      have l: "extractAtLine_loop document lineNumber i
                 = extractAtLine_loop document lineNumber (j + length (matched m))"
        using e False by (auto simp: extractAtLine_loop.simps [of document lineNumber i])
      have "\<not> P (j, m)" using False by (simp add: P_def)
      then have r: "filter P (matchAll (getText document) i)
                 = filter P (matchAll (getText document) (j + length (matched m)))"
        using e by (simp add: matchAll.simps [of "getText document" i])
      from "1.IH" [OF e refl refl refl False]
      have "extractAtLine_loop document lineNumber (j + length (matched m)) =
        (case filter P (matchAll (getText document) (j + length (matched m))) of
           [] \<Rightarrow> None
         | (j, m) # _ \<Rightarrow> Some (JSON_stringify [trim (group1 m)]))"
        unfolding P_def .
      then have "extractAtLine_loop document lineNumber i =
        (case filter P (matchAll (getText document) i) of
           [] \<Rightarrow> None
         | (j, m) # _ \<Rightarrow> Some (JSON_stringify [trim (group1 m)]))"
        unfolding l r .
      then show ?thesis unfolding P_def .
    qed
  qed
qed


lemma filter_to_block:
  "filter (\<lambda>(i, b, n). P i b n) (map to_block ms)
     = map to_block (filter (\<lambda>(j, m). P j (group1 m) (j + length (matched m))) ms)"
  by (induction ms) (auto simp: to_block_def)

text \<open>
  Claim C6. \<open>_extractMermaidCodeAtLine\<close> returns the JSON text of the array with one
  element, the trimmed body of the first block whose lines, from the line of the offset
  where its opening fence starts to the line of the offset where its closing fence ends,
  contain the given line and whose trimmed body is not empty; it returns null when there
  is no such block.
\<close>

theorem extractMermaidCodeAtLine_block:
  "\<exists>bs. blocks_from (getText document) 0 bs \<and>
        (\<forall>bs'. blocks_from (getText document) 0 bs' \<longrightarrow> bs' = bs) \<and>
        extractMermaidCodeAtLine document lineNumber =
          (case filter (\<lambda>(i, b, n). positionAt_line document i \<le> lineNumber \<and>
                          lineNumber \<le> positionAt_line document n \<and> trim b \<noteq> []) bs of
             [] \<Rightarrow> None
           | (i, b, n) # _ \<Rightarrow> Some (JSON_stringify [trim b]))"
proof -
  define bs where "bs = map to_block (matchAll (getText document) 0)"
  have 1: "blocks_from (getText document) 0 bs"
    unfolding bs_def by (rule blocks_matchAll)
  have 2: "\<forall>bs'. blocks_from (getText document) 0 bs' \<longrightarrow> bs' = bs"
    unfolding bs_def using blocks_unique by blast
  have f: "filter (\<lambda>(i, b, n). positionAt_line document i \<le> lineNumber \<and>
                          lineNumber \<le> positionAt_line document n \<and> trim b \<noteq> []) bs
     = map to_block (filter (\<lambda>(j, m). positionAt_line document j \<le> lineNumber \<and>
                     lineNumber \<le> positionAt_line document (j + length (matched m)) \<and>
                     trim (group1 m) \<noteq> []) (matchAll (getText document) 0))"
    unfolding bs_def by (rule filter_to_block)
  have 3: "extractMermaidCodeAtLine document lineNumber =
          (case filter (\<lambda>(i, b, n). positionAt_line document i \<le> lineNumber \<and>
                          lineNumber \<le> positionAt_line document n \<and> trim b \<noteq> []) bs of
             [] \<Rightarrow> None
           | (i, b, n) # _ \<Rightarrow> Some (JSON_stringify [trim b]))"
  proof -
    define ms where "ms = filter (\<lambda>(j, m). positionAt_line document j \<le> lineNumber \<and>
                     lineNumber \<le> positionAt_line document (j + length (matched m)) \<and>
                     trim (group1 m) \<noteq> []) (matchAll (getText document) 0)"
    have "extractMermaidCodeAtLine document lineNumber =
      (case ms of [] \<Rightarrow> None | (j, m) # _ \<Rightarrow> Some (JSON_stringify [trim (group1 m)]))"
      unfolding ms_def extractMermaidCodeAtLine_def by (rule extractAtLine_loop_matchAll)
    also have "\<dots> = (case map to_block ms of [] \<Rightarrow> None
           | (i, b, n) # _ \<Rightarrow> Some (JSON_stringify [trim b]))"
      by (cases ms) (auto simp: to_block_def)
    finally show ?thesis unfolding f ms_def .
  qed
  show ?thesis by (intro exI [of _ bs] conjI 1 2 3)
qed



lemma example2_single: \<open>JSON_stringify [utf16 ''A-->B''] = utf16 ''["A-->B"]''\<close>
  by code_simp

theorem extractMermaidCodeAtLine_block_witness:
  \<open>blocks_from (getText example_document2) 0
      [(0, utf16 ''A-->B'', 23), (25, [], 40), (41, utf16 ''pie'', 58)] \<and>
   extractMermaidCodeAtLine example_document2 1 = Some (utf16 ''["A-->B"]'') \<and>
   extractMermaidCodeAtLine example_document2 5 = None\<close>
proof -
  have 1: "blocks_from (getText example_document2) 0
      [(0, utf16 ''A-->B'', 23), (25, [], 40), (41, utf16 ''pie'', 58)]"
    using blocks_matchAll [of "getText example_document2" 0] unfolding example2_matches .
  have "extractMermaidCodeAtLine example_document2 l =
          (case filter (\<lambda>(i, b, n). positionAt_line example_document2 i \<le> l \<and>
                          l \<le> positionAt_line example_document2 n \<and> trim b \<noteq> [])
                  [(0, utf16 ''A-->B'', 23), (25, [], 40), (41, utf16 ''pie'', 58)] of
             [] \<Rightarrow> None
           | (i, b, n) # _ \<Rightarrow> Some (JSON_stringify [trim b]))" for l
  proof -
    from extractMermaidCodeAtLine_block [of example_document2 l]
    obtain bs where u: "\<forall>bs'. blocks_from (getText example_document2) 0 bs' \<longrightarrow> bs' = bs"
      and r: "extractMermaidCodeAtLine example_document2 l =
          (case filter (\<lambda>(i, b, n). positionAt_line example_document2 i \<le> l \<and>
                          l \<le> positionAt_line example_document2 n \<and> trim b \<noteq> []) bs of
             [] \<Rightarrow> None
           | (i, b, n) # _ \<Rightarrow> Some (JSON_stringify [trim b]))"
      by blast
    from u 1 have "bs = [(0, utf16 ''A-->B'', 23), (25, [], 40), (41, utf16 ''pie'', 58)]"
      by blast
    with r show ?thesis by simp
  qed
  then have "extractMermaidCodeAtLine example_document2 1 = Some (JSON_stringify [utf16 ''A-->B''])"
    and "extractMermaidCodeAtLine example_document2 5 = None"
    by (simp_all add: example2_lines example2_trim utf16_nonempty)
  with 1 show ?thesis by (simp only: example2_single)
qed


section \<open>Extraction is a function of the text\<close>

lemma extractAtLine_text_only:
  assumes "getText d1 = getText d2"
  shows "extractMermaidCodeAtLine d1 lineNumber = extractMermaidCodeAtLine d2 lineNumber"
proof -
  have "positionAt_line d1 = positionAt_line d2"
    using assms by (simp add: positionAt_line_def fun_eq_iff)
  then show ?thesis
    unfolding extractMermaidCodeAtLine_def extractAtLine_loop_matchAll assms by simp
qed

lemma only_lastIndex_refl: "only_lastIndex r s s"
proof -
  have "s = s\<lparr>lastIndex := lastIndex s\<rparr> \<and> (\<forall>r'. r' \<noteq> r \<longrightarrow> lastIndex s r' = lastIndex s r')"
    by simp
  then show ?thesis unfolding only_lastIndex_def by (rule exI [of _ "lastIndex s"])
qed

lemma only_lastIndex_trans:
  assumes "only_lastIndex r s s'" and "only_lastIndex r s' s''"
  shows "only_lastIndex r s s''"
proof -
  from assms(1) obtain f where f: "s' = s\<lparr>lastIndex := f\<rparr>" "\<forall>r'. r' \<noteq> r \<longrightarrow> f r' = lastIndex s r'"
    unfolding only_lastIndex_def by blast
  from assms(2) obtain g where g: "s'' = s'\<lparr>lastIndex := g\<rparr>" "\<forall>r'. r' \<noteq> r \<longrightarrow> g r' = lastIndex s' r'"
    unfolding only_lastIndex_def by blast
  from f g have "s'' = s\<lparr>lastIndex := g\<rparr> \<and> (\<forall>r'. r' \<noteq> r \<longrightarrow> g r' = lastIndex s r')"
    by simp
  then show ?thesis unfolding only_lastIndex_def by (rule exI [of _ g])
qed

lemma only_lastIndex_update: "only_lastIndex r s (s\<lparr>lastIndex := (lastIndex s)(r := k)\<rparr>)"
proof -
  have "s\<lparr>lastIndex := (lastIndex s)(r := k)\<rparr> = s\<lparr>lastIndex := (lastIndex s)(r := k)\<rparr> \<and>
    (\<forall>r'. r' \<noteq> r \<longrightarrow> ((lastIndex s)(r := k)) r' = lastIndex s r')"
    by simp
  then show ?thesis unfolding only_lastIndex_def by (rule exI [of _ "(lastIndex s)(r := k)"])
qed

lemma only_lastIndex_fields:
  assumes "only_lastIndex r s s'"
  shows "panel s' = panel s" "documents s' = documents s" "regexp_count s' = regexp_count s"
    "pattern_of s' = pattern_of s" "logger_object s' = logger_object s"
    "r' \<noteq> r \<Longrightarrow> lastIndex s' r' = lastIndex s r'"
proof -
  from assms obtain f where f: "s' = s\<lparr>lastIndex := f\<rparr>" "\<forall>r'. r' \<noteq> r \<longrightarrow> f r' = lastIndex s r'"
    unfolding only_lastIndex_def by blast
  then show "panel s' = panel s" "documents s' = documents s" "regexp_count s' = regexp_count s"
    "pattern_of s' = pattern_of s" "logger_object s' = logger_object s"
    "r' \<noteq> r \<Longrightarrow> lastIndex s' r' = lastIndex s r'"
    by simp_all
qed

lemma exec_only_lastIndex: "only_lastIndex r s (snd (exec r tx s))"
  by (cases "scan (pattern_of s r) tx (lastIndex s r)")
     (auto simp: exec_def only_lastIndex_update)

lemma scan_fence: "scan FencePattern tx i = regex_exec tx i"
proof (induction tx i rule: regex_exec.induct)
  case (1 tx i)
  show ?case
  proof (cases "length tx < i")
    case True
    then show ?thesis by (simp add: scan.simps [of _ tx i] regex_exec.simps [of tx i])
  next
    case False
    show ?thesis
    proof (cases "match_here (drop i tx)")
      case None
      with False "1.IH" show ?thesis
        by (simp add: scan.simps [of _ tx i] regex_exec.simps [of tx i] pattern_match_def)
    next
      case (Some m)
      with False show ?thesis
        by (simp add: scan.simps [of _ tx i] regex_exec.simps [of tx i] pattern_match_def)
    qed
  qed
qed

lemma drain_only_lastIndex: "only_lastIndex r s (snd (drain r tx s))"
proof (induction r tx s rule: drain.induct)
  case (1 r tx s)
  obtain x s1 where e: "exec r tx s = (x, s1)" by (cases "exec r tx s")
  with exec_only_lastIndex [of r s tx] have o1: "only_lastIndex r s s1" by simp
  show ?case
  proof (cases x)
    case None
    with e o1 show ?thesis by (simp add: drain.simps [of r tx s])
  next
    case (Some p)
    obtain j m where p: "p = (j, m)" by (cases p)
    define s2 where "s2 = (if matched m = []
                    then s1\<lparr>lastIndex := (lastIndex s1)(r := Suc (lastIndex s1 r))\<rparr>
                    else s1)"
    have o2: "only_lastIndex r s1 s2"
      unfolding s2_def by (simp add: only_lastIndex_refl only_lastIndex_update)
    from "1.IH" [OF e [symmetric] Some p [symmetric] s2_def]
    have o3: "only_lastIndex r s2 (snd (drain r tx s2))" .
    have "snd (drain r tx s) = snd (drain r tx s2)"
      using e Some p by (simp add: drain.simps [of r tx s] s2_def Let_def split: prod.splits)
    with only_lastIndex_trans [OF only_lastIndex_trans [OF o1 o2] o3] show ?thesis by simp
  qed
qed

lemma drain_fence:
  "pattern_of s r = FencePattern \<Longrightarrow> fst (drain r tx s) = matchAll tx (lastIndex s r)"
proof (induction r tx s rule: drain.induct)
  case (1 r tx s)
  show ?case
  proof (cases "regex_exec tx (lastIndex s r)")
    case None
    with "1.prems" show ?thesis
      by (simp add: drain.simps [of r tx s] exec_def scan_fence matchAll.simps [of tx "lastIndex s r"])
  next
    case (Some p)
    obtain j m where p: "p = (j, m)" by (cases p)
    define s1 where "s1 = s\<lparr>lastIndex := (lastIndex s)(r := j + length (matched m))\<rparr>"
    from Some p "1.prems" have e: "exec r tx s = (Some (j, m), s1)"
      by (simp add: exec_def scan_fence s1_def)
    from Some p regex_exec_range [of tx "lastIndex s r" j m] have ne: "matched m \<noteq> []" by simp
    then have s2: "s1 = (if matched m = []
                    then s1\<lparr>lastIndex := (lastIndex s1)(r := Suc (lastIndex s1 r))\<rparr>
                    else s1)"
      by simp
    have "pattern_of s1 r = FencePattern" using "1.prems" by (simp add: s1_def)
    from "1.IH" [OF e [symmetric] refl refl s2 this]
    have "fst (drain r tx s1) = matchAll tx (j + length (matched m))" by (simp add: s1_def)
    with e ne Some p show ?thesis
      by (auto simp: drain.simps [of r tx s] matchAll.simps [of tx "lastIndex s r"] split: prod.splits)
  qed
qed


lemma steps_only_lastIndex:
  "only_lastIndex r s (snd (extractAtLine_steps r tx document lineNumber s))"
proof (induction r tx document lineNumber s rule: extractAtLine_steps.induct)
  case (1 r tx document lineNumber s)
  obtain x s1 where e: "exec r tx s = (x, s1)" by (cases "exec r tx s")
  with exec_only_lastIndex [of r s tx] have o1: "only_lastIndex r s s1" by simp
  show ?case
  proof (cases x)
    case None
    with e o1 show ?thesis by (simp add: extractAtLine_steps.simps [of r tx document lineNumber s])
  next
    case (Some p)
    obtain j m where p: "p = (j, m)" by (cases p)
    show ?thesis
    proof (cases "positionAt_line (documents s1 document) j \<le> lineNumber \<and>
        lineNumber \<le> positionAt_line (documents s1 document) (j + length (matched m)) \<and>
        0 < length (trim (group1 m))")
      case True
      with e Some p o1 show ?thesis
        by (simp add: extractAtLine_steps.simps [of r tx document lineNumber s])
    next
      case False
      from "1.IH" [OF e [symmetric] Some p [symmetric] refl refl False]
      have o2: "only_lastIndex r s1 (snd (extractAtLine_steps r tx document lineNumber s1))" .
      have "extractAtLine_steps r tx document lineNumber s
              = extractAtLine_steps r tx document lineNumber s1"
        using e Some p False
        by (auto simp: extractAtLine_steps.simps [of r tx document lineNumber s])
      with only_lastIndex_trans [OF o1 o2] show ?thesis by simp
    qed
  qed
qed

lemma steps_fence:
  "pattern_of s r = FencePattern \<Longrightarrow>
   fst (extractAtLine_steps r (getText (documents s document)) document lineNumber s)
     = extractAtLine_loop (documents s document) lineNumber (lastIndex s r)"
proof (induction r "getText (documents s document)" document lineNumber s
        rule: extractAtLine_steps.induct)
  case (1 r document lineNumber s)
  let ?tx = "getText (documents s document)"
  show ?case
  proof (cases "regex_exec ?tx (lastIndex s r)")
    case None
    with "1.prems" show ?thesis
      by (simp add: extractAtLine_steps.simps [of r ?tx document lineNumber s] exec_def scan_fence
            extractAtLine_loop.simps [of "documents s document" lineNumber "lastIndex s r"])
  next
    case (Some p)
    obtain j m where p: "p = (j, m)" by (cases p)
    define s1 where "s1 = s\<lparr>lastIndex := (lastIndex s)(r := j + length (matched m))\<rparr>"
    from Some p "1.prems" have e: "exec r ?tx s = (Some (j, m), s1)"
      by (simp add: exec_def scan_fence s1_def)
    have d: "documents s1 = documents s" and pf: "pattern_of s1 r = FencePattern"
      and li: "lastIndex s1 r = j + length (matched m)"
      using "1.prems" by (simp_all add: s1_def)
    show ?thesis
    proof (cases "positionAt_line (documents s1 document) j \<le> lineNumber \<and>
        lineNumber \<le> positionAt_line (documents s1 document) (j + length (matched m)) \<and>
        0 < length (trim (group1 m))")
      case True
      with e Some p d show ?thesis
        by (simp add: extractAtLine_steps.simps [of r ?tx document lineNumber s]
              extractAtLine_loop.simps [of "documents s document" lineNumber "lastIndex s r"])
    next
      case False
      have tx: "?tx = getText (documents s1 document)" by (simp add: d)
      from "1.hyps" [OF e [symmetric] refl refl refl refl False tx pf]
      have "fst (extractAtLine_steps r (getText (documents s1 document)) document lineNumber s1)
              = extractAtLine_loop (documents s1 document) lineNumber (lastIndex s1 r)" .
      then have "fst (extractAtLine_steps r ?tx document lineNumber s1)
              = extractAtLine_loop (documents s document) lineNumber (j + length (matched m))"
        by (simp add: d li)
      with e Some p False d show ?thesis
        by (auto simp: extractAtLine_steps.simps [of r ?tx document lineNumber s]
              extractAtLine_loop.simps [of "documents s document" lineNumber "lastIndex s r"])
    qed
  qed
qed

lemma untouched_kept: "untouched s s' \<longleftrightarrow> kept (regexp_count s) s s'"
  by (simp add: untouched_def kept_def)

lemma kept_refl: "kept n s s"
  by (simp add: kept_def)

lemma kept_trans: "kept n s s' \<Longrightarrow> kept n s' s'' \<Longrightarrow> kept n s s''"
  by (simp add: kept_def)

lemma kept_logger:
  assumes "logger_only call_logger"
  shows "kept n s (call_logger e s)"
proof -
  from assms obtain l where "call_logger e s = s\<lparr>logger_object := l\<rparr>"
    unfolding logger_only_def by blast
  then show ?thesis by (simp add: kept_def)
qed

lemma kept_new: "n \<le> regexp_count s \<Longrightarrow> kept n s (snd (new_RegExp p i s))"
  by (simp add: kept_def new_RegExp_def)

lemma kept_only: "only_lastIndex r s s' \<Longrightarrow> n \<le> r \<Longrightarrow> kept n s s'"
  by (simp add: kept_def only_lastIndex_fields)

lemma kept_count: "kept n s s' \<Longrightarrow> regexp_count s \<le> regexp_count s'"
  by (simp add: kept_def)

lemma matchAll_run_kept:
  assumes "n \<le> regexp_count s"
  shows "kept n s (snd (matchAll_run r tx s))"
proof -
  let ?s1 = "snd (new_RegExp (pattern_of s r) (lastIndex s r) s)"
  have m: "matchAll_run r tx s = drain (regexp_count s) tx ?s1"
    by (simp add: matchAll_run_def new_RegExp_def)
  have "kept n s ?s1" using assms by (rule kept_new)
  moreover have "kept n ?s1 (snd (drain (regexp_count s) tx ?s1))"
    using drain_only_lastIndex assms by (rule kept_only)
  ultimately show ?thesis unfolding m by (rule kept_trans)
qed

lemma matchAll_run_fence:
  assumes "pattern_of s r = FencePattern"
  shows "fst (matchAll_run r tx s) = matchAll tx (lastIndex s r)"
proof -
  let ?s1 = "snd (new_RegExp (pattern_of s r) (lastIndex s r) s)"
  have m: "matchAll_run r tx s = drain (regexp_count s) tx ?s1"
    by (simp add: matchAll_run_def new_RegExp_def)
  have "pattern_of ?s1 (regexp_count s) = FencePattern"
    and "lastIndex ?s1 (regexp_count s) = lastIndex s r"
    using assms by (simp_all add: new_RegExp_def)
  with drain_fence [of ?s1 "regexp_count s" tx] show ?thesis unfolding m by simp
qed

lemma extractMermaidCodeAtLine_run_result:
  "fst (extractMermaidCodeAtLine_run document lineNumber s)
     = extractMermaidCodeAtLine (documents s document) lineNumber"
proof -
  let ?s1 = "snd (new_RegExp FencePattern 0 s)"
  have d: "documents ?s1 = documents s" and p: "pattern_of ?s1 (regexp_count s) = FencePattern"
    and l: "lastIndex ?s1 (regexp_count s) = 0"
    by (simp_all add: new_RegExp_def)
  have "extractMermaidCodeAtLine_run document lineNumber s
      = extractAtLine_steps (regexp_count s) (getText (documents ?s1 document)) document lineNumber ?s1"
    by (simp add: extractMermaidCodeAtLine_run_def new_RegExp_def)
  with steps_fence [OF p, of document lineNumber] show ?thesis
    by (simp add: d l extractMermaidCodeAtLine_def)
qed

lemma extractMermaidCodeAtLine_run_state:
  "untouched s (snd (extractMermaidCodeAtLine_run document lineNumber s))"
  "logger_object (snd (extractMermaidCodeAtLine_run document lineNumber s)) = logger_object s"
proof -
  let ?s1 = "snd (new_RegExp FencePattern 0 s)"
  let ?s2 = "snd (extractAtLine_steps (regexp_count s) (getText (documents s document)) document lineNumber ?s1)"
  have r: "extractMermaidCodeAtLine_run document lineNumber s
      = extractAtLine_steps (regexp_count s) (getText (documents s document)) document lineNumber ?s1"
    by (simp add: extractMermaidCodeAtLine_run_def new_RegExp_def)
  have o: "only_lastIndex (regexp_count s) ?s1 ?s2" by (rule steps_only_lastIndex)
  have "kept (regexp_count s) s ?s1" by (rule kept_new) simp
  moreover from o have "kept (regexp_count s) ?s1 ?s2" by (rule kept_only) simp
  ultimately show "untouched s (snd (extractMermaidCodeAtLine_run document lineNumber s))"
    unfolding untouched_kept r by (rule kept_trans)
  from only_lastIndex_fields(5) [OF o]
  show "logger_object (snd (extractMermaidCodeAtLine_run document lineNumber s)) = logger_object s"
    unfolding r by (simp add: new_RegExp_def)
qed


lemma extractMermaidCode_run_cases:
  fixes call_logger :: "log_entry \<Rightarrow> 'l objects \<Rightarrow> 'l objects"
  defines "tx \<equiv> \<lambda>document s. getText (documents s document)"
  defines "s1 \<equiv> \<lambda>s. call_logger (logDebug ''MermaidDetection'' ''Document snapshot'') s"
  defines "s2 \<equiv> \<lambda>s. snd (new_RegExp FencePattern 0 (s1 s))"
  defines "s3 \<equiv> \<lambda>document s. snd (matchAll_run (regexp_count (s1 s)) (tx document s) (s2 s))"
  defines "ms \<equiv> \<lambda>document s. fst (matchAll_run (regexp_count (s1 s)) (tx document s) (s2 s))"
  defines "s4 \<equiv> \<lambda>document s.
             call_logger (logDebug ''MermaidDetection'' ''Number of matches found'') (s3 document s)"
  defines "s5 \<equiv> \<lambda>document s.
             call_logger (logDebug ''MermaidDetection'' ''Fallback flags'') (s4 document s)"
  defines "s6 \<equiv> \<lambda>document s. snd (new_RegExp SimplePattern 0 (s5 document s))"
  defines "s7 \<equiv> \<lambda>document s.
             snd (matchAll_run (regexp_count (s5 document s)) (tx document s) (s6 document s))"
  defines "diagrams \<equiv> \<lambda>document s. filter (\<lambda>code. length code > 0)
                                        (map (\<lambda>(j, m). trim (group1 m)) (ms document s))"
  shows "extractMermaidCode_run call_logger document s =
     (if ms document s = [] then
        (None, call_logger (logDebug ''MermaidDetection'' ''Simple pattern matches'') (s7 document s))
      else (if diagrams document s = [] then None else Some (JSON_stringify (diagrams document s)),
            call_logger (logDebug ''MermaidDetection'' ''Valid diagrams detected'') (s4 document s)))"
  unfolding extractMermaidCode_run_def tx_def s1_def s2_def s3_def ms_def s4_def s5_def s6_def
    s7_def diagrams_def
  by (simp add: Let_def new_RegExp_def split: prod.splits)

lemma extractMermaidCode_run_result:
  assumes "logger_only call_logger"
  shows "fst (extractMermaidCode_run call_logger document s)
           = fst (extractMermaidCode (documents s document) w)"
proof -
  let ?e = "logDebug ''MermaidDetection'' ''Document snapshot''"
  let ?s1 = "call_logger ?e s"
  let ?s2 = "snd (new_RegExp FencePattern 0 ?s1)"
  from assms obtain l where l: "?s1 = s\<lparr>logger_object := l\<rparr>"
    unfolding logger_only_def by blast
  have "pattern_of ?s2 (regexp_count ?s1) = FencePattern" "lastIndex ?s2 (regexp_count ?s1) = 0"
    by (simp_all add: new_RegExp_def)
  with matchAll_run_fence [of ?s2 "regexp_count ?s1" "getText (documents s document)"]
  have "fst (matchAll_run (regexp_count ?s1) (getText (documents s document)) ?s2)
          = matchAll (getText (documents s document)) 0"
    by simp
  then show ?thesis
    unfolding extractMermaidCode_run_cases extractMermaidCode_result by simp
qed

lemma extractMermaidCode_run_state:
  assumes lg: "logger_only call_logger"
  shows "untouched s (snd (extractMermaidCode_run call_logger document s))"
proof -
  let ?n = "regexp_count s"
  let ?tx = "getText (documents s document)"
  let ?s1 = "call_logger (logDebug ''MermaidDetection'' ''Document snapshot'') s"
  let ?s2 = "snd (new_RegExp FencePattern 0 ?s1)"
  let ?s3 = "snd (matchAll_run (regexp_count ?s1) ?tx ?s2)"
  let ?s4 = "call_logger (logDebug ''MermaidDetection'' ''Number of matches found'') ?s3"
  let ?s5 = "call_logger (logDebug ''MermaidDetection'' ''Fallback flags'') ?s4"
  let ?s6 = "snd (new_RegExp SimplePattern 0 ?s5)"
  let ?s7 = "snd (matchAll_run (regexp_count ?s5) ?tx ?s6)"
  let ?s8 = "call_logger (logDebug ''MermaidDetection'' ''Simple pattern matches'') ?s7"
  let ?s9 = "call_logger (logDebug ''MermaidDetection'' ''Valid diagrams detected'') ?s4"
  have k1: "kept ?n s ?s1" using lg by (rule kept_logger)
  have k2: "kept ?n s ?s2"
    using k1 kept_new [OF kept_count [OF k1]] by (rule kept_trans)
  have k3: "kept ?n s ?s3"
    using k2 matchAll_run_kept [OF kept_count [OF k2]] by (rule kept_trans)
  have k4: "kept ?n s ?s4" using k3 kept_logger [OF lg] by (rule kept_trans)
  have k5: "kept ?n s ?s5" using k4 kept_logger [OF lg] by (rule kept_trans)
  have k6: "kept ?n s ?s6"
    using k5 kept_new [OF kept_count [OF k5]] by (rule kept_trans)
  have k7: "kept ?n s ?s7"
    using k6 matchAll_run_kept [OF kept_count [OF k6]] by (rule kept_trans)
  have k8: "kept ?n s ?s8" using k7 kept_logger [OF lg] by (rule kept_trans)
  have k9: "kept ?n s ?s9" using k4 kept_logger [OF lg] by (rule kept_trans)
  from k8 k9 show ?thesis
    unfolding untouched_kept extractMermaidCode_run_cases by simp
qed

lemma example_logger_only: "logger_only example_logger"
proof -
  have "\<exists>l. example_logger e s = s\<lparr>logger_object := l\<rparr>" for e s
    unfolding example_logger_def by (rule exI [of _ "logger_object s @ [e]"]) (rule refl)
  then show ?thesis unfolding logger_only_def by blast
qed

lemma example2_all: \<open>fst (extractMermaidCode example_document2 example_host)
   = Some (utf16 ''["A-->B","pie"]'')\<close>
  by code_simp

lemma example2_at_line: \<open>extractMermaidCodeAtLine example_document2 1 = Some (utf16 ''["A-->B"]'')\<close>
  by code_simp

text \<open>
  Claim C8. Both extraction methods, run statement by statement on the objects, are
  functions of the text of the document (and of the line number). From any two states of
  the objects, whatever the fields of the panel, the other fields of the documents and
  the \<open>lastIndex\<close> of the regular expressions that exist, calls on documents with the
  same text return the same result; and a call made again after the first returns what
  the first returned. A call changes neither the panel (its mode, its single line, its
  current document and its page are among the fields), nor any document, nor any
  regular expression that existed before it: the regular expressions it writes to are
  the ones it creates. \<open>_extractMermaidCodeAtLine\<close> does not change the logger, which
  it never calls. Of the logger, whose class is not part of the sources, it is assumed
  that a call changes the logger alone.
\<close>

theorem extraction_pure:
  assumes "logger_only call_logger"
  shows
    "(getText (documents s1 d1) = getText (documents s2 d2) \<longrightarrow>
        fst (extractMermaidCode_run call_logger d1 s1)
          = fst (extractMermaidCode_run call_logger d2 s2) \<and>
        fst (extractMermaidCodeAtLine_run d1 lineNumber s1)
          = fst (extractMermaidCodeAtLine_run d2 lineNumber s2)) \<and>
     fst (extractMermaidCode_run call_logger d1 (snd (extractMermaidCode_run call_logger d1 s1)))
       = fst (extractMermaidCode_run call_logger d1 s1) \<and>
     fst (extractMermaidCodeAtLine_run d1 lineNumber
            (snd (extractMermaidCodeAtLine_run d1 lineNumber s1)))
       = fst (extractMermaidCodeAtLine_run d1 lineNumber s1) \<and>
     untouched s1 (snd (extractMermaidCode_run call_logger d1 s1)) \<and>
     untouched s1 (snd (extractMermaidCodeAtLine_run d1 lineNumber s1)) \<and>
     logger_object (snd (extractMermaidCodeAtLine_run d1 lineNumber s1)) = logger_object s1"
proof -
  have by_text: "fst (extractMermaidCode_run call_logger d s)
          = fst (extractMermaidCode_run call_logger d' s') \<and>
        fst (extractMermaidCodeAtLine_run d lineNumber s)
          = fst (extractMermaidCodeAtLine_run d' lineNumber s')"
    if t: "getText (documents s d) = getText (documents s' d')"
    for d d' and s s' :: "'a objects"
  proof
    have "fst (extractMermaidCode_run call_logger d s)
            = fst (extractMermaidCode (documents s d) (panel s))"
      using assms by (rule extractMermaidCode_run_result)
    also have "\<dots> = fst (extractMermaidCode (documents s' d') (panel s'))"
      unfolding extractMermaidCode_result t by (rule refl)
    also have "\<dots> = fst (extractMermaidCode_run call_logger d' s')"
      using assms by (rule extractMermaidCode_run_result [symmetric])
    finally show "fst (extractMermaidCode_run call_logger d s)
          = fst (extractMermaidCode_run call_logger d' s')" .
    from t have "extractMermaidCodeAtLine (documents s d) lineNumber
            = extractMermaidCodeAtLine (documents s' d') lineNumber"
      by (rule extractAtLine_text_only)
    then show "fst (extractMermaidCodeAtLine_run d lineNumber s)
          = fst (extractMermaidCodeAtLine_run d' lineNumber s')"
      by (simp only: extractMermaidCodeAtLine_run_result)
  qed
  have u1: "untouched s1 (snd (extractMermaidCode_run call_logger d1 s1))"
    using assms by (rule extractMermaidCode_run_state)
  have u2: "untouched s1 (snd (extractMermaidCodeAtLine_run d1 lineNumber s1))"
    by (rule extractMermaidCodeAtLine_run_state)
  have l2: "logger_object (snd (extractMermaidCodeAtLine_run d1 lineNumber s1)) = logger_object s1"
    by (rule extractMermaidCodeAtLine_run_state)
  from u1 have "getText (documents (snd (extractMermaidCode_run call_logger d1 s1)) d1)
      = getText (documents s1 d1)"
    by (simp add: untouched_def)
  from by_text [OF this]
  have again1: "fst (extractMermaidCode_run call_logger d1 (snd (extractMermaidCode_run call_logger d1 s1)))
       = fst (extractMermaidCode_run call_logger d1 s1)"
    by (rule conjunct1)
  from u2 have "getText (documents (snd (extractMermaidCodeAtLine_run d1 lineNumber s1)) d1)
      = getText (documents s1 d1)"
    by (simp add: untouched_def)
  from by_text [OF this]
  have again2: "fst (extractMermaidCodeAtLine_run d1 lineNumber
            (snd (extractMermaidCodeAtLine_run d1 lineNumber s1)))
       = fst (extractMermaidCodeAtLine_run d1 lineNumber s1)"
    by (rule conjunct2)
  have A: "getText (documents s1 d1) = getText (documents s2 d2) \<longrightarrow>
        fst (extractMermaidCode_run call_logger d1 s1)
          = fst (extractMermaidCode_run call_logger d2 s2) \<and>
        fst (extractMermaidCodeAtLine_run d1 lineNumber s1)
          = fst (extractMermaidCodeAtLine_run d2 lineNumber s2)"
    by (rule impI) (rule by_text)
  show ?thesis by (intro conjI A again1 again2 u1 u2 l2)
qed

theorem extraction_pure_witness:
  \<open>logger_only example_logger \<and>
   getText (documents example_objects 0)
     = getText (documents (example_objects\<lparr>panel := example_host\<lparr>mode := mode_single\<rparr>,
                                          lastIndex := (\<lambda>r. 3)\<rparr>) 1) \<and>
   fst (extractMermaidCode_run example_logger 0 example_objects)
     = Some (utf16 ''["A-->B","pie"]'') \<and>
   fst (extractMermaidCode_run example_logger 1
          (example_objects\<lparr>panel := example_host\<lparr>mode := mode_single\<rparr>, lastIndex := (\<lambda>r. 3)\<rparr>))
     = Some (utf16 ''["A-->B","pie"]'') \<and>
   fst (extractMermaidCodeAtLine_run 0 1 example_objects) = Some (utf16 ''["A-->B"]'') \<and>
   fst (extractMermaidCodeAtLine_run 1 1
          (example_objects\<lparr>panel := example_host\<lparr>mode := mode_single\<rparr>, lastIndex := (\<lambda>r. 3)\<rparr>))
     = Some (utf16 ''["A-->B"]'') \<and>
   panel (snd (extractMermaidCode_run example_logger 0 example_objects)) = example_host \<and>
   lastIndex (snd (extractMermaidCode_run example_logger 0 example_objects)) 0 = 7 \<and>
   lastIndex (snd (extractMermaidCodeAtLine_run 0 1 example_objects)) 0 = 7\<close>
proof -
  let ?other = "example_objects\<lparr>panel := example_host\<lparr>mode := mode_single\<rparr>, lastIndex := (\<lambda>r. 3)\<rparr>"
  note T = extraction_pure [OF example_logger_only, of example_objects 0 ?other 1 1]
  have t: "getText (documents example_objects 0) = getText (documents ?other 1)"
    by (simp add: example_objects_def)
  have a: \<open>fst (extractMermaidCode_run example_logger 0 example_objects)
     = Some (utf16 ''["A-->B","pie"]'')\<close>
    unfolding extractMermaidCode_run_result [OF example_logger_only, of 0 example_objects example_host]
    by (simp add: example_objects_def example2_all)
  have b: \<open>fst (extractMermaidCodeAtLine_run 0 1 example_objects) = Some (utf16 ''["A-->B"]'')\<close>
    unfolding extractMermaidCodeAtLine_run_result
    by (simp add: example_objects_def example2_at_line)
  from T t have e: "fst (extractMermaidCode_run example_logger 0 example_objects)
          = fst (extractMermaidCode_run example_logger 1 ?other)"
    "fst (extractMermaidCodeAtLine_run 0 1 example_objects)
          = fst (extractMermaidCodeAtLine_run 1 1 ?other)"
    by blast+
  from T have u: "untouched example_objects (snd (extractMermaidCode_run example_logger 0 example_objects))"
    "untouched example_objects (snd (extractMermaidCodeAtLine_run 0 1 example_objects))"
    by blast+
  then have f: "panel (snd (extractMermaidCode_run example_logger 0 example_objects)) = example_host"
    "lastIndex (snd (extractMermaidCode_run example_logger 0 example_objects)) 0 = 7"
    "lastIndex (snd (extractMermaidCodeAtLine_run 0 1 example_objects)) 0 = 7"
    by (simp_all add: untouched_def example_objects_def)
  from example_logger_only t a b e f show ?thesis by simp
qed


section \<open>One block, written in different ways\<close>

lemma fence_free_tl: "fence_free (c # cs) \<Longrightarrow> fence_free cs"
  by (auto simp: fence_free_def sublist_Cons_right)

lemma fence_free_no_start:
  assumes "Y \<noteq> []" and "fence_free Y"
  shows "Y @ t \<noteq> FENCE @ r"
proof
  assume e: "Y @ t = FENCE @ r"
  from assms(1) obtain a Y1 where Y: "Y = a # Y1" by (cases Y) auto
  show False
  proof (cases Y1)
    case Nil
    with Y e assms(2) show False by (simp add: fence_free_def FENCE_def)
  next
    case (Cons b Y2)
    show False
    proof (cases Y2)
      case Nil
      with Y Cons e assms(2) show False by (simp add: fence_free_def FENCE_def)
    next
      case (Cons c Y3)
      with Y \<open>Y1 = b # Y2\<close> e have "Y = FENCE @ Y3" by (simp add: FENCE_def)
      then have "sublist FENCE Y" by (simp add: sublist_append_rightI)
      with assms(2) show False by (simp add: fence_free_def)
    qed
  qed
qed


lemma closer_line_end:
  assumes "fence_line_end nl"
  shows "closer (nl @ FENCE) = [[]]"
proof -
  from assms have "closing_fence (nl @ FENCE)"
    by (auto simp: fence_line_end_def closing_fence_def)
  then have "[] \<in> set (closer (nl @ FENCE))"
    using closer_mem [of "[]" "nl @ FENCE"] by simp
  with at_most_one(1) [OF closer_length] show ?thesis by blast
qed

lemma closer_inside:
  assumes "Y \<noteq> []" and "fence_free Y" and "fence_line_end nl"
    and "closer (Y @ nl @ FENCE) \<noteq> []"
  shows "(Y = [LF] \<and> nl = []) \<or> (Y = [CR] \<and> nl = [LF]) \<or> (Y = [CR, LF] \<and> nl = [])"
proof -
  from assms(4) obtain g r where g: "closing_fence g" and e: "Y @ nl @ FENCE = g @ r"
    using closer_empty_iff by blast
  from assms(1) obtain a Y1 where Y: "Y = a # Y1" by (cases Y) auto
  from g consider "g = FENCE" | "g = [LF] @ FENCE" | "g = [CR, LF] @ FENCE"
    unfolding closing_fence_def by blast
  then show ?thesis
  proof cases
    case 1
    with e fence_free_no_start [OF assms(1,2)] show ?thesis by blast
  next
    case 2
    with e Y have a: "a = LF" and e1: "Y1 @ nl @ FENCE = FENCE @ r" by simp_all
    show ?thesis
    proof (cases "Y1 = []")
      case True
      with e1 assms(3) have "nl = []"
        by (auto simp: fence_line_end_def FENCE_def units_distinct)
      with True Y a show ?thesis by simp
    next
      case False
      from assms(2) Y have "fence_free Y1" by (simp add: fence_free_tl)
      with e1 fence_free_no_start [OF False] show ?thesis by blast
    qed
  next
    case 3
    with e Y have a: "a = CR" and e1: "Y1 @ nl @ FENCE = LF # FENCE @ r" by simp_all
    show ?thesis
    proof (cases Y1)
      case Nil
      with e1 assms(3) have "nl = [LF]"
        by (auto simp: fence_line_end_def FENCE_def units_distinct)
      with Nil Y a show ?thesis by simp
    next
      case (Cons b Y2)
      with e1 have b: "b = LF" and e2: "Y2 @ nl @ FENCE = FENCE @ r" by simp_all
      show ?thesis
      proof (cases "Y2 = []")
        case True
        with e2 assms(3) have "nl = []"
          by (auto simp: fence_line_end_def FENCE_def units_distinct)
        with True Cons Y a b show ?thesis by simp
      next
        case False
        from assms(2) Y Cons have "fence_free Y2" by (auto dest: fence_free_tl)
        with e2 fence_free_no_start [OF False] show ?thesis by blast
      qed
    qed
  qed
qed

lemma first_close_body:
  assumes "fence_line_end nl"
  shows "fence_free body \<Longrightarrow>
    \<exists>b e. body = b @ e \<and> (\<forall>c \<in> set e. isWhiteSpace c) \<and>
          first_close (body @ nl @ FENCE) = Some (e @ nl @ FENCE, [])"
proof (induction body)
  case Nil
  from closer_line_end [OF assms] have "first_close (nl @ FENCE) = Some (nl @ FENCE, [])"
    by (cases "nl @ FENCE") simp_all
  then have "[] = [] @ [] \<and> (\<forall>c \<in> set []. isWhiteSpace c) \<and>
          first_close ([] @ nl @ FENCE) = Some ([] @ nl @ FENCE, [])"
    by simp
  then show ?case by (intro exI)
next
  case (Cons c cs)
  show ?case
  proof (cases "closer ((c # cs) @ nl @ FENCE)")
    case Nil
    then have f: "first_close ((c # cs) @ nl @ FENCE) = first_close (cs @ nl @ FENCE)" by simp
    from Cons.prems have "fence_free cs" by (rule fence_free_tl)
    from Cons.IH [OF this] obtain b e where
      "cs = b @ e" "\<forall>c \<in> set e. isWhiteSpace c"
      "first_close (cs @ nl @ FENCE) = Some (e @ nl @ FENCE, [])"
      by blast
    with f have "c # cs = (c # b) @ e \<and> (\<forall>c \<in> set e. isWhiteSpace c) \<and>
          first_close ((c # cs) @ nl @ FENCE) = Some (e @ nl @ FENCE, [])"
      by simp
    then show ?thesis by (intro exI)
  next
    case (Cons r rs)
    then have ne: "closer ((c # cs) @ nl @ FENCE) \<noteq> []" by simp
    from closer_inside [OF _ Cons.prems assms ne]
    have k: "(c # cs = [LF] \<and> nl = []) \<or> (c # cs = [CR] \<and> nl = [LF]) \<or> (c # cs = [CR, LF] \<and> nl = [])"
      by simp
    then have "fence_line_end ((c # cs) @ nl)" and w: "\<forall>x \<in> set (c # cs). isWhiteSpace x"
      by (auto simp: fence_line_end_def isWhiteSpace_simps)
    from closer_line_end [OF this(1)] have "closer ((c # cs) @ nl @ FENCE) = [[]]" by simp
    then have "first_close ((c # cs) @ nl @ FENCE) = Some ((c # cs) @ nl @ FENCE, [])" by simp
    with w have "c # cs = [] @ (c # cs) \<and> (\<forall>x \<in> set (c # cs). isWhiteSpace x) \<and>
          first_close ((c # cs) @ nl @ FENCE) = Some ((c # cs) @ nl @ FENCE, [])"
      by simp
    then show ?thesis by (intro exI)
  qed
qed

lemma trim_append_space:
  assumes "\<forall>c \<in> set e. isWhiteSpace c"
  shows "trim (b @ e) = trim b"
proof (cases "\<forall>c \<in> set b. isWhiteSpace c")
  case True
  with assms have "\<forall>c \<in> set (b @ e). isWhiteSpace c" by auto
  then have d1: "dropWhile isWhiteSpace (b @ e) = []"
    unfolding dropWhile_eq_Nil_conv .
  from True have d2: "dropWhile isWhiteSpace b = []"
    unfolding dropWhile_eq_Nil_conv .
  show ?thesis unfolding trim_def d1 d2 by (rule refl)
next
  case False
  then have "dropWhile isWhiteSpace (b @ e) = dropWhile isWhiteSpace b @ e"
    by (auto simp: dropWhile_append1)
  moreover have "dropWhile isWhiteSpace (rev e @ xs) = dropWhile isWhiteSpace xs" for xs
    by (rule dropWhile_append2) (use assms in simp)
  ultimately show ?thesis by (simp add: trim_def)
qed


lemma single_block_matches:
  assumes "fence_free body" and "opening_fence f" and "fence_line_end nl"
  shows "\<exists>b e. body = b @ e \<and> (\<forall>c \<in> set e. isWhiteSpace c) \<and>
           matchAll (f @ body @ nl @ FENCE) 0
             = [(0, \<lparr>matched = f @ body @ nl @ FENCE, group1 = b\<rparr>)]"
proof -
  let ?tx = "f @ body @ nl @ FENCE"
  from first_close_body [OF assms(3,1)] obtain b e where
    be: "body = b @ e" "\<forall>c \<in> set e. isWhiteSpace c"
    and fc: "first_close (body @ nl @ FENCE) = Some (e @ nl @ FENCE, [])"
    by blast
  from assms(2) have "body @ nl @ FENCE \<in> set (opener ?tx)"
    using opener_mem [of "body @ nl @ FENCE" ?tx] by blast
  with at_most_one(1) [OF opener_length] have o: "opener ?tx = [body @ nl @ FENCE]" by blast
  have "match_here ?tx = Some \<lparr>matched = take (length ?tx - length ([] :: jsstring)) ?tx,
      group1 = take (length (body @ nl @ FENCE) - length (e @ nl @ FENCE)) (body @ nl @ FENCE)\<rparr>"
    by (simp add: match_here_eq o fc)
  moreover have "take (length (body @ nl @ FENCE) - length (e @ nl @ FENCE)) (body @ nl @ FENCE) = b"
    by (simp add: be(1))
  ultimately have m: "match_here ?tx = Some \<lparr>matched = ?tx, group1 = b\<rparr>" by simp
  define n where "n = length ?tx"
  have first: "regex_exec ?tx 0 = Some (0, \<lparr>matched = ?tx, group1 = b\<rparr>)"
    unfolding regex_exec_Some using m by simp
  have "regex_exec ?tx n = None"
    unfolding regex_exec_None n_def by (simp add: match_here_Nil)
  then have "matchAll ?tx n = []"
    by (subst matchAll.simps) simp
  with first have "matchAll ?tx 0 = [(0, \<lparr>matched = ?tx, group1 = b\<rparr>)]"
    by (subst matchAll.simps) (simp add: n_def)
  with be have "body = b @ e \<and> (\<forall>c \<in> set e. isWhiteSpace c) \<and>
           matchAll ?tx 0 = [(0, \<lparr>matched = ?tx, group1 = b\<rparr>)]"
    by simp
  then show ?thesis by (intro exI)
qed

text \<open>
  Claim C2, amended. For a body with no \<open>```\<close> inside that does not end in a backtick,
  a document that is the block of this body yields the same result however the fences
  are written: with spaces or tabs after the opening fence or without, with \<open>\n\<close> or
  \<open>\r\n\<close> after it, and with \<open>\n\<close>, \<open>\r\n\<close> or nothing before the closing fence. The
  result is the trimmed body, or null when the trimmed body is empty.
\<close>

theorem fence_variants_same:
  assumes "\<not> sublist FENCE body" and "body = [] \<or> last body \<noteq> BACKTICK"
    and "\<forall>c \<in> set ws. c = 0x20 \<or> c = 0x09"
    and "nl1 = [LF] \<or> nl1 = [CR, LF]"
    and "nl2 = [] \<or> nl2 = [LF] \<or> nl2 = [CR, LF]"
    and "getText document = FENCE_MERMAID @ ws @ nl1 @ body @ nl2 @ FENCE"
  shows "fst (extractMermaidCode document w) =
           (if trim body = [] then None else Some (JSON_stringify [trim body]))"
proof -
  from assms(1,2) have ff: "fence_free body" by (simp add: fence_free_def)
  from assms(3) have "\<forall>c \<in> set ws. isWhiteSpace c \<and> c \<noteq> LF \<and> c \<noteq> CR"
    by (auto simp: isWhiteSpace_def LF_def CR_def)
  with assms(4) have "opening_fence (FENCE_MERMAID @ ws @ nl1)"
    unfolding opening_fence_def by blast
  moreover from assms(5) have "fence_line_end nl2" by (simp add: fence_line_end_def)
  ultimately obtain b e where be: "body = b @ e" "\<forall>c \<in> set e. isWhiteSpace c"
    and ma: "matchAll ((FENCE_MERMAID @ ws @ nl1) @ body @ nl2 @ FENCE) 0
             = [(0, \<lparr>matched = (FENCE_MERMAID @ ws @ nl1) @ body @ nl2 @ FENCE, group1 = b\<rparr>)]"
    using single_block_matches [OF ff] by blast
  from be have t: "trim b = trim body" by (simp add: trim_append_space)
  from ma have "matchAll (getText document) 0
             = [(0, \<lparr>matched = getText document, group1 = b\<rparr>)]"
    by (simp add: assms(6))
  then show ?thesis
    unfolding extractMermaidCode_result by (simp add: t)
qed

text \<open>
  Claim C2 as stated fails for a body that ends in a backtick: without a line end before
  the closing fence the backtick is taken for the start of the fence, and the result
  differs from the one with the line end.
\<close>

theorem fence_variants_backtick:
  \<open>fst (extractMermaidCode (fenced [] [LF] (utf16 ''a`'') []) example_host)
     = Some (utf16 ''["a"]'') \<and>
   fst (extractMermaidCode (fenced [] [LF] (utf16 ''a`'') [LF]) example_host)
     = Some (utf16 ''["a`"]'')\<close>
  by code_simp

lemma example_body_facts:
  "\<not> sublist FENCE (utf16 ''graph TD; A-->B'')"
  "last (utf16 ''graph TD; A-->B'') \<noteq> BACKTICK"
  "trim (utf16 ''graph TD; A-->B'') = utf16 ''graph TD; A-->B''"
  "utf16 ''graph TD; A-->B'' \<noteq> []"
  by code_simp+

lemma example_body_json:
  \<open>JSON_stringify [utf16 ''graph TD; A-->B''] = utf16 ''["graph TD; A-->B"]''\<close>
  by code_simp

theorem fence_variants_same_witness:
  \<open>\<not> sublist FENCE (utf16 ''graph TD; A-->B'') \<and>
   last (utf16 ''graph TD; A-->B'') \<noteq> BACKTICK \<and>
   fst (extractMermaidCode (fenced [0x20, 0x09] [CR, LF] (utf16 ''graph TD; A-->B'') [LF]) example_host)
     = Some (utf16 ''["graph TD; A-->B"]'') \<and>
   fst (extractMermaidCode (fenced [] [LF] (utf16 ''graph TD; A-->B'') []) example_host)
     = Some (utf16 ''["graph TD; A-->B"]'')\<close>
proof -
  have ws: "\<forall>c \<in> set [0x20, 0x09 :: code_unit]. c = 0x20 \<or> c = 0x09" by simp
  have "fst (extractMermaidCode (fenced [0x20, 0x09] [CR, LF] (utf16 ''graph TD; A-->B'') [LF]) example_host)
     = Some (JSON_stringify [utf16 ''graph TD; A-->B''])"
    using fence_variants_same [OF example_body_facts(1) _ ws, of "[CR, LF]" "[LF]"
        "fenced [0x20, 0x09] [CR, LF] (utf16 ''graph TD; A-->B'') [LF]" example_host]
    by (simp add: example_body_facts fenced_def)
  moreover have "fst (extractMermaidCode (fenced [] [LF] (utf16 ''graph TD; A-->B'') []) example_host)
     = Some (JSON_stringify [utf16 ''graph TD; A-->B''])"
    using fence_variants_same [OF example_body_facts(1), of "[]" "[LF]" "[]"
        "fenced [] [LF] (utf16 ''graph TD; A-->B'') []" example_host]
    by (simp add: example_body_facts fenced_def)
  ultimately show ?thesis
    using example_body_facts(1,2) by (simp only: example_body_json) simp
qed

end
